theory Spec2Isabelle
  imports Main "HOL-Library.Monad_Syntax"
begin

section \<open>Buffers, memory accesses and loops of convolve.c\<close>

text \<open>
  The routines of convolve.c work on three caller-owned buffers: the signal \<open>in\<close>, the
  coefficients \<open>kernel\<close> (both only read) and the result \<open>out\<close> (written). A buffer is a
  list of samples. The sample type is a type variable with \<open>0\<close>, \<open>+\<close> and \<open>*\<close> and no
  law assumed for them: C's \<open>float\<close> is one such structure, so whatever is proved for
  every such type holds for the float operations in the order the code performs them.
  Laws the float operations do not have (associativity, distributivity) are never used
  silently: a statement that needs one names it as a hypothesis or in its sort.

  An access outside a buffer is undefined behaviour in C; here it is the result \<open>None\<close>,
  which then is the result of the whole call. The output buffer carries, beside its
  cells, the list of the indices stored to, in program order, so that statements on
  which cells a call writes, and how often, can be made. The three buffers are distinct
  objects (the routines are not meant for overlapping buffers).

  The C parameters \<open>in\<close>, \<open>length\<close> and \<open>kernel\<close> are written \<open>in'\<close>, \<open>length'\<close> and
  \<open>kernel'\<close>: the plain names are taken in HOL. The type \<open>int\<close> of C is modelled by the
  unbounded integers; the index arithmetic of the routines stays far inside the 32-bit
  range for every pair of non-negative lengths, so no wrap-around is involved.
  Alignment requirements of vector loads are outside the model.
\<close>

record 'a mem =
  cells :: "'a list"
  stores :: "int list"

definition load :: "'a list \<Rightarrow> int \<Rightarrow> 'a option" where
  "load buf i = (if 0 \<le> i \<and> i < int (length buf) then Some (buf ! nat i) else None)"

definition store :: "'a mem \<Rightarrow> int \<Rightarrow> 'a \<Rightarrow> 'a mem option" where
  "store m i v =
     (if 0 \<le> i \<and> i < int (length (cells m))
      then Some (m\<lparr>cells := (cells m)[nat i := v], stores := stores m @ [i]\<rparr>)
      else None)"

text \<open>A store into a local array (no record of the stores is kept for locals).\<close>

definition local_store :: "'a list \<Rightarrow> int \<Rightarrow> 'a \<Rightarrow> 'a list option" where
  "local_store buf i v =
     (if 0 \<le> i \<and> i < int (length buf) then Some (buf[nat i := v]) else None)"

text \<open>
  A vector load reads \<open>w\<close> consecutive samples starting at index \<open>p\<close>, a vector store
  writes the lanes of \<open>v\<close> to the cells \<open>p, p + 1, ...\<close>; either is undefined as soon as
  one lane lies outside the buffer.
\<close>

definition vec_load :: "nat \<Rightarrow> 'a list \<Rightarrow> int \<Rightarrow> 'a list option" where
  "vec_load w buf p =
     (if 0 \<le> p \<and> p + int w \<le> int (length buf) then Some (take w (drop (nat p) buf))
      else None)"

definition vec_store :: "'a mem \<Rightarrow> int \<Rightarrow> 'a list \<Rightarrow> 'a mem option" where
  "vec_store m p v =
     (if 0 \<le> p \<and> p + int (length v) \<le> int (length (cells m))
      then Some (m\<lparr>cells := take (nat p) (cells m) @ v @ drop (nat p + length v) (cells m),
                    stores := stores m @ map (\<lambda>j. p + int j) [0..<length v]\<rparr>)
      else None)"

text \<open>
  \<open>for (int i = i0; i < n; i += step)\<close> and \<open>for (int i = i0; i <= n; i += step)\<close>, the
  body a function of the counter and of the state it updates. Every loop of the source
  steps by a positive constant; a loop that never advanced would not return.
\<close>

function for_lt :: "int \<Rightarrow> int \<Rightarrow> int \<Rightarrow> (int \<Rightarrow> 's \<Rightarrow> 's option) \<Rightarrow> 's \<Rightarrow> 's option" where
  "for_lt i n step body s =
     (if i < n then
        (if 0 < step then
           (case body i s of None \<Rightarrow> None | Some s' \<Rightarrow> for_lt (i + step) n step body s')
         else None)
      else Some s)"
  by pat_completeness auto
termination
  by (relation "measure (\<lambda>(i, n, step, body, s). nat (n - i))") auto

function for_le :: "int \<Rightarrow> int \<Rightarrow> int \<Rightarrow> (int \<Rightarrow> 's \<Rightarrow> 's option) \<Rightarrow> 's \<Rightarrow> 's option" where
  "for_le i n step body s =
     (if i \<le> n then
        (if 0 < step then
           (case body i s of None \<Rightarrow> None | Some s' \<Rightarrow> for_le (i + step) n step body s')
         else None)
      else Some s)"
  by pat_completeness auto
termination
  by (relation "measure (\<lambda>(i, n, step, body, s). nat (n + 1 - i))") auto

declare for_lt.simps [simp del] for_le.simps [simp del]

text \<open>Declaring a variable-length array of a size that is not positive is undefined.\<close>

definition vla_decl :: "int \<Rightarrow> unit option" where
  "vla_decl n = (if 0 < n then Some () else None)"

definition SSE_SIMD_LENGTH :: int where "SSE_SIMD_LENGTH = 4"
definition AVX_SIMD_LENGTH :: int where "AVX_SIMD_LENGTH = 8"
definition KERNEL_LENGTH :: int where "KERNEL_LENGTH = 16"
definition VECTOR_LENGTH :: int where "VECTOR_LENGTH = 16"

section \<open>The scalar routines\<close>

text \<open>The statement \<open>out[i] += in[i+k] * kernel[kernel_length - k - 1]\<close>.\<close>

definition mac ::
  "'a::{plus,times} list \<Rightarrow> 'a list \<Rightarrow> int \<Rightarrow> int \<Rightarrow> int \<Rightarrow> 'a mem \<Rightarrow> 'a mem option" where
  "mac in' kernel' kernel_length i k out = do {
     acc \<leftarrow> load (cells out) i;
     x \<leftarrow> load in' (i + k);
     c \<leftarrow> load kernel' (kernel_length - k - 1);
     store out i (acc + x * c)
   }"

definition convolve_naive ::
  "'a::{zero,plus,times} list \<Rightarrow> 'a mem \<Rightarrow> int \<Rightarrow> 'a list \<Rightarrow> int \<Rightarrow> ('a mem \<times> int) option" where
  "convolve_naive in' out length' kernel' kernel_length = do {
     out \<leftarrow> for_le 0 (length' - kernel_length) 1 (\<lambda>i out. do {
       out \<leftarrow> store out i 0;
       for_lt 0 kernel_length 1 (mac in' kernel' kernel_length i) out
     }) out;
     Some (out, 0)
   }"

text \<open>The statement \<open>out[i] += in[i+k] * kernel_value\<close> of the reordered routine.\<close>

definition mac_value :: "'a::{plus,times} list \<Rightarrow> 'a \<Rightarrow> int \<Rightarrow> int \<Rightarrow> 'a mem \<Rightarrow> 'a mem option" where
  "mac_value in' kernel_value k i out = do {
     acc \<leftarrow> load (cells out) i;
     x \<leftarrow> load in' (i + k);
     store out i (acc + x * kernel_value)
   }"

definition convolve_reversed_naive ::
  "'a::{zero,plus,times} list \<Rightarrow> 'a mem \<Rightarrow> int \<Rightarrow> 'a list \<Rightarrow> int \<Rightarrow> ('a mem \<times> int) option" where
  "convolve_reversed_naive in' out length' kernel' kernel_length = do {
     out \<leftarrow> for_le 0 (length' - kernel_length) 1 (\<lambda>i out. store out i 0) out;
     out \<leftarrow> for_lt 0 kernel_length 1 (\<lambda>k out. do {
       kernel_value \<leftarrow> load kernel' (kernel_length - k - 1);
       for_le 0 (length' - kernel_length) 1 (mac_value in' kernel_value k) out
     }) out;
     Some (out, 0)
   }"

section \<open>The 4-wide routine convolve_sse_simple\<close>

text \<open>A value of type \<open>__m128\<close> is the list of its four lanes, lane 0 first.\<close>

definition mm_set1_ps :: "'a \<Rightarrow> 'a list" where
  "mm_set1_ps x = replicate 4 x"

definition mm_setzero_ps :: "'a::zero list" where
  "mm_setzero_ps = replicate 4 0"

definition mm_loadu_ps :: "'a list \<Rightarrow> int \<Rightarrow> 'a list option" where
  "mm_loadu_ps buf p = vec_load 4 buf p"

definition mm_load_ps :: "'a list \<Rightarrow> int \<Rightarrow> 'a list option" where
  "mm_load_ps buf p = vec_load 4 buf p"

definition mm_mul_ps :: "'a::times list \<Rightarrow> 'a list \<Rightarrow> 'a list" where
  "mm_mul_ps a b = map2 (*) a b"

definition mm_add_ps :: "'a::plus list \<Rightarrow> 'a list \<Rightarrow> 'a list" where
  "mm_add_ps a b = map2 (+) a b"

definition mm_storeu_ps :: "'a mem \<Rightarrow> int \<Rightarrow> 'a list \<Rightarrow> 'a mem option" where
  "mm_storeu_ps m p v = vec_store m p v"

text \<open>
  The accumulation of one block of four output samples: the loop over \<open>k\<close> inside the
  loop over \<open>i\<close>. The local array \<open>kernel_reverse\<close> is filled in ascending index
  order, so the loop that fills it appends one vector per round.
\<close>

definition sse_simple_block ::
  "'a::{zero,plus,times} list \<Rightarrow> 'a list list \<Rightarrow> int \<Rightarrow> int \<Rightarrow> 'a list option" where
  "sse_simple_block in' kernel_reverse kernel_length i =
     for_lt 0 kernel_length 1 (\<lambda>k acc. do {
       data_block \<leftarrow> mm_loadu_ps in' (i + k);
       kr \<leftarrow> load kernel_reverse k;
       let prod = mm_mul_ps kr data_block;
       Some (mm_add_ps acc prod)
     }) mm_setzero_ps"

definition convolve_sse_simple ::
  "'a::{zero,plus,times} list \<Rightarrow> 'a mem \<Rightarrow> int \<Rightarrow> 'a list \<Rightarrow> int \<Rightarrow> ('a mem \<times> int) option" where
  "convolve_sse_simple in' out length' kernel' kernel_length = do {
     _ \<leftarrow> vla_decl kernel_length;
     kernel_reverse \<leftarrow> for_lt 0 kernel_length 1 (\<lambda>i kernel_reverse. do {
       c \<leftarrow> load kernel' (kernel_length - i - 1);
       Some (kernel_reverse @ [mm_set1_ps c])
     }) [];
     out \<leftarrow> for_lt 0 (length' - kernel_length) 4 (\<lambda>i out. do {
       acc \<leftarrow> sse_simple_block in' kernel_reverse kernel_length i;
       mm_storeu_ps out i acc
     }) out;
     let i = length' - kernel_length;
     out \<leftarrow> store out i 0;
     out \<leftarrow> for_lt 0 kernel_length 1 (mac in' kernel' kernel_length i) out;
     Some (out, 0)
   }"

section \<open>The 8-wide routines\<close>

text \<open>
  A value of type \<open>__m256\<close> is the list of its eight lanes. The fused multiply-add
  \<open>_mm256_fmadd_ps(a, b, c)\<close> is \<open>a * b + c\<close> in every lane (that it rounds once is outside
  the model). \<open>_mm256_castps128_ps256\<close> leaves the upper four lanes unspecified (they
  are \<open>0\<close> here; the one routine that uses it overwrites them before any use);
  \<open>_mm256_insertf128_ps(a, b, 1)\<close> replaces the upper four lanes by \<open>b\<close>.
\<close>

definition mm256_broadcast_ss :: "'a list \<Rightarrow> int \<Rightarrow> 'a list option" where
  "mm256_broadcast_ss buf p = do { x \<leftarrow> load buf p; Some (replicate 8 x) }"

definition mm256_setzero_ps :: "'a::zero list" where
  "mm256_setzero_ps = replicate 8 0"

definition mm256_loadu_ps :: "'a list \<Rightarrow> int \<Rightarrow> 'a list option" where
  "mm256_loadu_ps buf p = vec_load 8 buf p"

definition mm256_load_ps :: "'a list \<Rightarrow> int \<Rightarrow> 'a list option" where
  "mm256_load_ps buf p = vec_load 8 buf p"

definition mm256_mul_ps :: "'a::times list \<Rightarrow> 'a list \<Rightarrow> 'a list" where
  "mm256_mul_ps a b = map2 (*) a b"

definition mm256_add_ps :: "'a::plus list \<Rightarrow> 'a list \<Rightarrow> 'a list" where
  "mm256_add_ps a b = map2 (+) a b"

definition mm256_fmadd_ps :: "'a::{plus,times} list \<Rightarrow> 'a list \<Rightarrow> 'a list \<Rightarrow> 'a list" where
  "mm256_fmadd_ps a b c = map2 (+) (map2 (*) a b) c"

definition mm256_castps128_ps256 :: "'a::zero list \<Rightarrow> 'a list" where
  "mm256_castps128_ps256 a = a @ replicate 4 0"

definition mm256_insertf128_ps :: "'a list \<Rightarrow> 'a list \<Rightarrow> int \<Rightarrow> 'a list" where
  "mm256_insertf128_ps a b imm = (if imm = 1 then take 4 a @ b else b @ drop 4 a)"

definition mm256_storeu_ps :: "'a mem \<Rightarrow> int \<Rightarrow> 'a list \<Rightarrow> 'a mem option" where
  "mm256_storeu_ps m p v = vec_store m p v"

text \<open>
  \<open>memcpy(in_aligned[i], in + i, (length - i) * sizeof(float))\<close> yields row \<open>i\<close> of the
  local array \<open>in_aligned\<close>: the samples \<open>in[i], ..., in[length - 1]\<close>. A negative byte
  count (converted to an unsigned size) or a source range outside \<open>in\<close> is undefined. The
  row is declared with \<open>length\<close> cells, of which the copy sets the first \<open>length - i\<close>;
  reading a cell the copy has not set counts as an access outside the row. The rows are
  filled in ascending order, so the loop appends them; a row that is declared and never
  filled does not exist in the list.
\<close>

definition memcpy_row :: "'a list \<Rightarrow> int \<Rightarrow> int \<Rightarrow> 'a list option" where
  "memcpy_row in' length' i =
     (if 0 \<le> i \<and> i \<le> length' \<and> length' \<le> int (length in')
      then Some (take (nat (length' - i)) (drop (nat i) in'))
      else None)"

definition fill_in_aligned :: "'a list \<Rightarrow> int \<Rightarrow> int \<Rightarrow> 'a list list option" where
  "fill_in_aligned in' length' rows =
     for_lt 0 rows 1 (\<lambda>i in_aligned. do {
       row \<leftarrow> memcpy_row in' length' i;
       Some (in_aligned @ [row])
     }) []"

text \<open>
  The loop \<open>for (i = 0; i < KERNEL_LENGTH; i++) kernel_reverse[i] =
  _mm256_broadcast_ss(&kernel[KERNEL_LENGTH - i - 1])\<close>, the same text in six of the seven
  routines.
\<close>

definition broadcast_kernel :: "'a list \<Rightarrow> 'a list list option" where
  "broadcast_kernel kernel' =
     for_lt 0 KERNEL_LENGTH 1 (\<lambda>i kernel_reverse. do {
       v \<leftarrow> mm256_broadcast_ss kernel' (KERNEL_LENGTH - i - 1);
       Some (kernel_reverse @ [v])
     }) []"

text \<open>
  The scalar code for the last sample, \<open>i = length - KERNEL_LENGTH\<close>, the same text in
  every 8-wide routine up to the buffer \<open>src\<close> the samples are read from (\<open>in\<close>, or row 0
  of \<open>in_aligned\<close>) and the buffer written.
\<close>

definition last_sample ::
  "'a::{zero,plus,times} list \<Rightarrow> 'a list \<Rightarrow> int \<Rightarrow> 'a mem \<Rightarrow> 'a mem option" where
  "last_sample src kernel' i out = do {
     out \<leftarrow> store out i 0;
     for_lt 0 KERNEL_LENGTH 1 (mac src kernel' KERNEL_LENGTH i) out
   }"

text \<open>
  The accumulation of one block of 16 output samples in \<open>convolve_avx_unrolled_vector\<close>
  (and, with the same text, in \<open>convolve_avx_unrolled_vector_local_output\<close>): the loops
  over \<open>k\<close>, \<open>l\<close> and \<open>m\<close> inside the loop over \<open>i\<close>.
\<close>

definition avx_unrolled_vector_block ::
  "'a::{zero,plus,times} list list \<Rightarrow> 'a list list \<Rightarrow> int \<Rightarrow> ('a list \<times> 'a list) option" where
  "avx_unrolled_vector_block in_aligned kernel_reverse i =
     for_lt 0 KERNEL_LENGTH VECTOR_LENGTH (\<lambda>k accs.
       let data_offset = i + k in
       for_lt 0 SSE_SIMD_LENGTH 1 (\<lambda>l accs.
         for_lt 0 VECTOR_LENGTH SSE_SIMD_LENGTH (\<lambda>m (acc0, acc1). do {
           row \<leftarrow> load in_aligned l;
           data_block \<leftarrow> mm256_loadu_ps row (data_offset + m);
           kr \<leftarrow> load kernel_reverse (k + l + m);
           let prod = mm256_mul_ps kr data_block;
           let acc0 = mm256_add_ps acc0 prod;
           data_block \<leftarrow> mm256_loadu_ps row (data_offset + m + AVX_SIMD_LENGTH);
           kr \<leftarrow> load kernel_reverse (k + l + m);
           let prod = mm256_mul_ps kr data_block;
           let acc1 = mm256_add_ps acc1 prod;
           Some (acc0, acc1)
         }) accs) accs) (mm256_setzero_ps, mm256_setzero_ps)"

definition convolve_avx_unrolled_vector ::
  "'a::{zero,plus,times} list \<Rightarrow> 'a mem \<Rightarrow> int \<Rightarrow> 'a list \<Rightarrow> int \<Rightarrow> ('a mem \<times> int) option" where
  "convolve_avx_unrolled_vector in' out length' kernel' kernel_length = do {
     _ \<leftarrow> vla_decl length';
     kernel_reverse \<leftarrow> broadcast_kernel kernel';
     in_aligned \<leftarrow> fill_in_aligned in' length' SSE_SIMD_LENGTH;
     out \<leftarrow> for_lt 0 (length' - KERNEL_LENGTH) VECTOR_LENGTH (\<lambda>i out. do {
       (acc0, acc1) \<leftarrow> avx_unrolled_vector_block in_aligned kernel_reverse i;
       out \<leftarrow> mm256_storeu_ps out i acc0;
       mm256_storeu_ps out (i + AVX_SIMD_LENGTH) acc1
     }) out;
     row0 \<leftarrow> load in_aligned 0;
     out \<leftarrow> last_sample row0 kernel' (length' - KERNEL_LENGTH) out;
     Some (out, 0)
   }"

definition avx_unrolled_vector_unaligned_block ::
  "'a::{zero,plus,times} list \<Rightarrow> 'a list list \<Rightarrow> int \<Rightarrow> ('a list \<times> 'a list) option" where
  "avx_unrolled_vector_unaligned_block in' kernel_reverse i =
     for_lt 0 KERNEL_LENGTH VECTOR_LENGTH (\<lambda>k accs.
       let data_offset = i + k in
       for_lt 0 SSE_SIMD_LENGTH 1 (\<lambda>l accs.
         for_lt 0 VECTOR_LENGTH SSE_SIMD_LENGTH (\<lambda>m (acc0, acc1). do {
           data_block \<leftarrow> mm256_loadu_ps in' (l + data_offset + m);
           kr \<leftarrow> load kernel_reverse (k + l + m);
           let prod = mm256_mul_ps kr data_block;
           let acc0 = mm256_add_ps acc0 prod;
           data_block \<leftarrow> mm256_loadu_ps in' (l + data_offset + m + AVX_SIMD_LENGTH);
           kr \<leftarrow> load kernel_reverse (k + l + m);
           let prod = mm256_mul_ps kr data_block;
           let acc1 = mm256_add_ps acc1 prod;
           Some (acc0, acc1)
         }) accs) accs) (mm256_setzero_ps, mm256_setzero_ps)"

definition convolve_avx_unrolled_vector_unaligned ::
  "'a::{zero,plus,times} list \<Rightarrow> 'a mem \<Rightarrow> int \<Rightarrow> 'a list \<Rightarrow> int \<Rightarrow> ('a mem \<times> int) option" where
  "convolve_avx_unrolled_vector_unaligned in' out length' kernel' kernel_length = do {
     kernel_reverse \<leftarrow> broadcast_kernel kernel';
     out \<leftarrow> for_lt 0 (length' - KERNEL_LENGTH) VECTOR_LENGTH (\<lambda>i out. do {
       (acc0, acc1) \<leftarrow> avx_unrolled_vector_unaligned_block in' kernel_reverse i;
       out \<leftarrow> mm256_storeu_ps out i acc0;
       mm256_storeu_ps out (i + AVX_SIMD_LENGTH) acc1
     }) out;
     out \<leftarrow> last_sample in' kernel' (length' - KERNEL_LENGTH) out;
     Some (out, 0)
   }"

definition avx_unrolled_vector_unaligned_fma_block ::
  "'a::{zero,plus,times} list \<Rightarrow> 'a list list \<Rightarrow> int \<Rightarrow> ('a list \<times> 'a list) option" where
  "avx_unrolled_vector_unaligned_fma_block in' kernel_reverse i =
     for_lt 0 KERNEL_LENGTH VECTOR_LENGTH (\<lambda>k accs.
       let data_offset = i + k in
       for_lt 0 SSE_SIMD_LENGTH 1 (\<lambda>l accs.
         for_lt 0 VECTOR_LENGTH SSE_SIMD_LENGTH (\<lambda>m (acc0, acc1). do {
           data_block \<leftarrow> mm256_loadu_ps in' (l + data_offset + m);
           kr \<leftarrow> load kernel_reverse (k + l + m);
           let acc0 = mm256_fmadd_ps kr data_block acc0;
           data_block \<leftarrow> mm256_loadu_ps in' (l + data_offset + m + AVX_SIMD_LENGTH);
           kr \<leftarrow> load kernel_reverse (k + l + m);
           let acc1 = mm256_fmadd_ps kr data_block acc1;
           Some (acc0, acc1)
         }) accs) accs) (mm256_setzero_ps, mm256_setzero_ps)"

definition convolve_avx_unrolled_vector_unaligned_fma ::
  "'a::{zero,plus,times} list \<Rightarrow> 'a mem \<Rightarrow> int \<Rightarrow> 'a list \<Rightarrow> int \<Rightarrow> ('a mem \<times> int) option" where
  "convolve_avx_unrolled_vector_unaligned_fma in' out length' kernel' kernel_length = do {
     kernel_reverse \<leftarrow> broadcast_kernel kernel';
     out \<leftarrow> for_lt 0 (length' - KERNEL_LENGTH) VECTOR_LENGTH (\<lambda>i out. do {
       (acc0, acc1) \<leftarrow> avx_unrolled_vector_unaligned_fma_block in' kernel_reverse i;
       out \<leftarrow> mm256_storeu_ps out i acc0;
       mm256_storeu_ps out (i + AVX_SIMD_LENGTH) acc1
     }) out;
     out \<leftarrow> last_sample in' kernel' (length' - KERNEL_LENGTH) out;
     Some (out, 0)
   }"

definition avx_unrolled_vector_m128_load_block ::
  "'a::{zero,plus,times} list list \<Rightarrow> 'a list list \<Rightarrow> int \<Rightarrow> ('a list \<times> 'a list) option" where
  "avx_unrolled_vector_m128_load_block in_aligned kernel_reverse i =
     for_lt 0 KERNEL_LENGTH VECTOR_LENGTH (\<lambda>k accs.
       let data_offset = i + k in
       for_lt 0 SSE_SIMD_LENGTH 1 (\<lambda>l accs.
         for_lt 0 VECTOR_LENGTH SSE_SIMD_LENGTH (\<lambda>m (acc0, acc1). do {
           row \<leftarrow> load in_aligned l;
           lower_data_block \<leftarrow> mm_load_ps row (data_offset + m);
           upper_data_block \<leftarrow> mm_load_ps row (data_offset + m + SSE_SIMD_LENGTH);
           let data_block = mm256_castps128_ps256 lower_data_block;
           let data_block = mm256_insertf128_ps data_block upper_data_block 1;
           kr \<leftarrow> load kernel_reverse (k + l + m);
           let prod = mm256_mul_ps kr data_block;
           let acc0 = mm256_add_ps acc0 prod;
           lower_data_block \<leftarrow> mm_load_ps row (data_offset + m + AVX_SIMD_LENGTH);
           upper_data_block \<leftarrow>
             mm_load_ps row (data_offset + m + AVX_SIMD_LENGTH + SSE_SIMD_LENGTH);
           let data_block = mm256_castps128_ps256 lower_data_block;
           let data_block = mm256_insertf128_ps data_block upper_data_block 1;
           kr \<leftarrow> load kernel_reverse (k + l + m);
           let prod = mm256_mul_ps kr data_block;
           let acc1 = mm256_add_ps acc1 prod;
           Some (acc0, acc1)
         }) accs) accs) (mm256_setzero_ps, mm256_setzero_ps)"

definition convolve_avx_unrolled_vector_m128_load ::
  "'a::{zero,plus,times} list \<Rightarrow> 'a mem \<Rightarrow> int \<Rightarrow> 'a list \<Rightarrow> int \<Rightarrow> ('a mem \<times> int) option" where
  "convolve_avx_unrolled_vector_m128_load in' out length' kernel' kernel_length = do {
     _ \<leftarrow> vla_decl length';
     kernel_reverse \<leftarrow> broadcast_kernel kernel';
     in_aligned \<leftarrow> fill_in_aligned in' length' SSE_SIMD_LENGTH;
     out \<leftarrow> for_lt 0 (length' - KERNEL_LENGTH) VECTOR_LENGTH (\<lambda>i out. do {
       (acc0, acc1) \<leftarrow> avx_unrolled_vector_m128_load_block in_aligned kernel_reverse i;
       out \<leftarrow> mm256_storeu_ps out i acc0;
       mm256_storeu_ps out (i + AVX_SIMD_LENGTH) acc1
     }) out;
     row0 \<leftarrow> load in_aligned 0;
     out \<leftarrow> last_sample row0 kernel' (length' - KERNEL_LENGTH) out;
     Some (out, 0)
   }"

definition avx_unrolled_vector_aligned_block ::
  "'a::{zero,plus,times} list list \<Rightarrow> 'a list list \<Rightarrow> int \<Rightarrow> ('a list \<times> 'a list) option" where
  "avx_unrolled_vector_aligned_block in_aligned kernel_reverse i =
     for_lt 0 KERNEL_LENGTH VECTOR_LENGTH (\<lambda>k accs.
       let data_offset = i + k in
       for_lt 0 AVX_SIMD_LENGTH 1 (\<lambda>l accs.
         for_lt 0 VECTOR_LENGTH AVX_SIMD_LENGTH (\<lambda>m (acc0, acc1). do {
           row \<leftarrow> load in_aligned l;
           data_block \<leftarrow> mm256_load_ps row (data_offset + m);
           kr \<leftarrow> load kernel_reverse (k + l + m);
           let prod = mm256_mul_ps kr data_block;
           let acc0 = mm256_add_ps acc0 prod;
           data_block \<leftarrow> mm256_load_ps row (data_offset + m + AVX_SIMD_LENGTH);
           kr \<leftarrow> load kernel_reverse (k + l + m);
           let prod = mm256_mul_ps kr data_block;
           let acc1 = mm256_add_ps acc1 prod;
           Some (acc0, acc1)
         }) accs) accs) (mm256_setzero_ps, mm256_setzero_ps)"

definition convolve_avx_unrolled_vector_aligned ::
  "'a::{zero,plus,times} list \<Rightarrow> 'a mem \<Rightarrow> int \<Rightarrow> 'a list \<Rightarrow> int \<Rightarrow> ('a mem \<times> int) option" where
  "convolve_avx_unrolled_vector_aligned in' out length' kernel' kernel_length = do {
     _ \<leftarrow> vla_decl length';
     kernel_reverse \<leftarrow> broadcast_kernel kernel';
     in_aligned \<leftarrow> fill_in_aligned in' length' AVX_SIMD_LENGTH;
     out \<leftarrow> for_lt 0 (length' - KERNEL_LENGTH) VECTOR_LENGTH (\<lambda>i out. do {
       (acc0, acc1) \<leftarrow> avx_unrolled_vector_aligned_block in_aligned kernel_reverse i;
       out \<leftarrow> mm256_storeu_ps out i acc0;
       mm256_storeu_ps out (i + AVX_SIMD_LENGTH) acc1
     }) out;
     row0 \<leftarrow> load in_aligned 0;
     out \<leftarrow> last_sample row0 kernel' (length' - KERNEL_LENGTH) out;
     Some (out, 0)
   }"

text \<open>
  \<open>convolve_avx_unrolled_vector_partial_aligned\<close> fills \<open>kernel_reverse\<close> through the
  local array \<open>kernel_block\<close> of eight cells: every cell is set to the coefficient, then
  the array is loaded as one vector. The state of the loop is the pair of both arrays
  (\<open>kernel_block\<close> starts with unspecified content, \<open>0\<close> here; all of it is
  overwritten before the first load).
\<close>

definition broadcast_kernel_block :: "'a::zero list \<Rightarrow> 'a list list option" where
  "broadcast_kernel_block kernel' = do {
     (kernel_block, kernel_reverse) \<leftarrow>
       for_lt 0 KERNEL_LENGTH 1 (\<lambda>i (kernel_block, kernel_reverse). do {
         kernel_block \<leftarrow> for_lt 0 AVX_SIMD_LENGTH 1 (\<lambda>j kernel_block. do {
           c \<leftarrow> load kernel' (KERNEL_LENGTH - i - 1);
           local_store kernel_block j c
         }) kernel_block;
         v \<leftarrow> mm256_load_ps kernel_block 0;
         Some (kernel_block, kernel_reverse @ [v])
       }) (replicate 8 0, []);
     Some kernel_reverse
   }"

definition avx_unrolled_vector_partial_aligned_block ::
  "'a::{zero,plus,times} list list \<Rightarrow> 'a list list \<Rightarrow> int \<Rightarrow> ('a list \<times> 'a list) option" where
  "avx_unrolled_vector_partial_aligned_block in_aligned kernel_reverse i =
     for_lt 0 KERNEL_LENGTH VECTOR_LENGTH (\<lambda>k accs.
       let data_offset = i + k in
       for_lt 0 SSE_SIMD_LENGTH 1 (\<lambda>l accs.
         for_lt 0 VECTOR_LENGTH AVX_SIMD_LENGTH (\<lambda>m (acc0, acc1). do {
           row \<leftarrow> load in_aligned l;
           data_block \<leftarrow> mm256_load_ps row (data_offset + m);
           kr \<leftarrow> load kernel_reverse (k + l + m);
           let prod = mm256_mul_ps kr data_block;
           let acc0 = mm256_add_ps acc0 prod;
           data_block \<leftarrow> mm256_load_ps row (data_offset + m + AVX_SIMD_LENGTH);
           kr \<leftarrow> load kernel_reverse (k + l + m);
           let prod = mm256_mul_ps kr data_block;
           let acc1 = mm256_add_ps acc1 prod;
           data_block \<leftarrow> mm256_loadu_ps row (data_offset + m + SSE_SIMD_LENGTH);
           kr \<leftarrow> load kernel_reverse (k + l + m + SSE_SIMD_LENGTH);
           let prod = mm256_mul_ps kr data_block;
           let acc0 = mm256_add_ps acc0 prod;
           data_block \<leftarrow>
             mm256_loadu_ps row (data_offset + m + SSE_SIMD_LENGTH + AVX_SIMD_LENGTH);
           kr \<leftarrow> load kernel_reverse (k + l + m + SSE_SIMD_LENGTH);
           let prod = mm256_mul_ps kr data_block;
           let acc1 = mm256_add_ps acc1 prod;
           Some (acc0, acc1)
         }) accs) accs) (mm256_setzero_ps, mm256_setzero_ps)"

definition convolve_avx_unrolled_vector_partial_aligned ::
  "'a::{zero,plus,times} list \<Rightarrow> 'a mem \<Rightarrow> int \<Rightarrow> 'a list \<Rightarrow> int \<Rightarrow> ('a mem \<times> int) option" where
  "convolve_avx_unrolled_vector_partial_aligned in' out length' kernel' kernel_length = do {
     _ \<leftarrow> vla_decl length';
     kernel_reverse \<leftarrow> broadcast_kernel_block kernel';
     in_aligned \<leftarrow> fill_in_aligned in' length' SSE_SIMD_LENGTH;
     out \<leftarrow> for_lt 0 (length' - KERNEL_LENGTH) VECTOR_LENGTH (\<lambda>i out. do {
       (acc0, acc1) \<leftarrow> avx_unrolled_vector_partial_aligned_block in_aligned kernel_reverse i;
       out \<leftarrow> mm256_storeu_ps out i acc0;
       mm256_storeu_ps out (i + AVX_SIMD_LENGTH) acc1
     }) out;
     row0 \<leftarrow> load in_aligned 0;
     out \<leftarrow> last_sample row0 kernel' (length' - KERNEL_LENGTH) out;
     Some (out, 0)
   }"

text \<open>
  \<open>convolve_avx_unrolled_vector_local_output\<close> computes into the local array
  \<open>local_out\<close> of \<open>length - KERNEL_LENGTH + 1\<close> cells, whose content is unspecified at
  first (\<open>0\<close> here; where the routine returns, every cell has been stored to before
  the copy), and copies it to \<open>out\<close> with one \<open>memcpy\<close> at the end.
\<close>

definition convolve_avx_unrolled_vector_local_output ::
  "'a::{zero,plus,times} list \<Rightarrow> 'a mem \<Rightarrow> int \<Rightarrow> 'a list \<Rightarrow> int \<Rightarrow> ('a mem \<times> int) option" where
  "convolve_avx_unrolled_vector_local_output in' out length' kernel' kernel_length = do {
     _ \<leftarrow> vla_decl length';
     _ \<leftarrow> vla_decl (length' - KERNEL_LENGTH + 1);
     let local_out = \<lparr>cells = replicate (nat (length' - KERNEL_LENGTH + 1)) 0, stores = []\<rparr>;
     kernel_reverse \<leftarrow> broadcast_kernel kernel';
     in_aligned \<leftarrow> fill_in_aligned in' length' SSE_SIMD_LENGTH;
     local_out \<leftarrow> for_lt 0 (length' - KERNEL_LENGTH) VECTOR_LENGTH (\<lambda>i local_out. do {
       (acc0, acc1) \<leftarrow> avx_unrolled_vector_block in_aligned kernel_reverse i;
       local_out \<leftarrow> mm256_storeu_ps local_out i acc0;
       mm256_storeu_ps local_out (i + AVX_SIMD_LENGTH) acc1
     }) local_out;
     row0 \<leftarrow> load in_aligned 0;
     local_out \<leftarrow> last_sample row0 kernel' (length' - KERNEL_LENGTH) local_out;
     out \<leftarrow> vec_store out 0 (cells local_out);
     Some (out, 0)
   }"

section \<open>The arithmetic of float\<close>

text \<open>
  The routines compute in C's \<open>float\<close>, IEEE 754 single precision: every sum and every
  product is the exact result rounded to 24 significant bits, to the nearest value and
  to the even one of two nearest. \<open>F32 m e\<close> stands for the number \<open>m * 2^e\<close>; the
  operations return it with \<open>m\<close> odd (or as \<open>F32 0 0\<close>), so that equal numbers are equal
  terms. The exponent is not limited here: overflow, subnormal numbers, signed zeros and
  NaN are outside this model, which is used for values of ordinary size only.
\<close>

datatype f32 = F32 (mant: int) (expo: int)

function bit_length :: "int \<Rightarrow> nat" where
  "bit_length a = (if a \<le> 0 then 0 else Suc (bit_length (a div 2)))"
  by pat_completeness auto
termination
  by (relation "measure nat") auto

declare bit_length.simps [simp del]

function strip_zeros :: "int \<Rightarrow> int \<Rightarrow> int \<times> int" where
  "strip_zeros m e =
     (if m = 0 then (0, 0)
      else if even m then strip_zeros (m div 2) (e + 1)
      else (m, e))"
  by pat_completeness auto
termination
  by (relation "measure (\<lambda>(m, e). nat \<bar>m\<bar>)") auto

declare strip_zeros.simps [simp del]

definition round_to_24 :: "int \<Rightarrow> int \<Rightarrow> int \<times> int" where
  "round_to_24 m e =
     (let a = \<bar>m\<bar>; n = bit_length a in
      if n \<le> 24 then (m, e)
      else
        let s = n - 24; q = a div 2 ^ s; r = a mod 2 ^ s; h = 2 ^ (s - 1);
            q' = (if h < r \<or> (r = h \<and> odd q) then q + 1 else q)
        in (sgn m * q', e + int s))"

definition f32_round :: "int \<Rightarrow> int \<Rightarrow> f32" where
  "f32_round m e =
     (case round_to_24 m e of (m', e') \<Rightarrow>
        case strip_zeros m' e' of (m'', e'') \<Rightarrow> F32 m'' e'')"

instantiation f32 :: "{zero,plus,times}"
begin

definition zero_f32 :: f32 where
  "zero_f32 = F32 0 0"

definition plus_f32 :: "f32 \<Rightarrow> f32 \<Rightarrow> f32" where
  "plus_f32 x y =
     (let e = min (expo x) (expo y)
      in f32_round (mant x * 2 ^ nat (expo x - e) + mant y * 2 ^ nat (expo y - e)) e)"

definition times_f32 :: "f32 \<Rightarrow> f32 \<Rightarrow> f32" where
  "times_f32 x y = f32_round (mant x * mant y) (expo x + expo y)"

instance ..

end

section \<open>Auxiliary notions for the statements\<close>

text \<open>
  The rounds of a counting loop, one after the other: \<open>foldM f xs s\<close> runs \<open>f x\<close> for
  every \<open>x\<close> of \<open>xs\<close> in turn and stops at the first undefined step. A loop from \<open>i\<close>
  below \<open>n\<close> in steps of \<open>step\<close> makes \<open>trips i n step\<close> rounds.
\<close>

fun foldM :: "('b \<Rightarrow> 's \<Rightarrow> 's option) \<Rightarrow> 'b list \<Rightarrow> 's \<Rightarrow> 's option" where
  "foldM f [] s = Some s"
| "foldM f (x # xs) s = (case f x s of None \<Rightarrow> None | Some s' \<Rightarrow> foldM f xs s')"

definition trips :: "int \<Rightarrow> int \<Rightarrow> int \<Rightarrow> nat" where
  "trips i n step = nat ((n - i + step - 1) div step)"

text \<open>
  The sum the specification gives for output sample \<open>i\<close>, the terms
  \<open>in[i+k] * kernel[K-1-k]\<close> added to \<open>0\<close> one by one for \<open>k = 0, 1, ...\<close>;
  \<open>conv_part\<close> is the sum of the first \<open>m\<close> terms, \<open>conv_at\<close> the sum of all \<open>K\<close>.
\<close>

definition conv_part :: "'a::{zero,plus,times} list \<Rightarrow> 'a list \<Rightarrow> nat \<Rightarrow> nat \<Rightarrow> 'a" where
  "conv_part in' kernel' m i =
     foldl (\<lambda>acc k. acc + in' ! (i + k) * kernel' ! (length kernel' - 1 - k)) 0 [0..<m]"

definition conv_at :: "'a::{zero,plus,times} list \<Rightarrow> 'a list \<Rightarrow> nat \<Rightarrow> 'a" where
  "conv_at in' kernel' i = conv_part in' kernel' (length kernel') i"


text \<open>
  The value a lane of the vector loop accumulates: the same terms in the same order as
  \<open>conv_part\<close>, each product with the kernel coefficient as its left factor
  (\<open>_mm_mul_ps(kernel_reverse[k], data_block)\<close>).
\<close>

definition lane_part :: "'a::{zero,plus,times} list \<Rightarrow> 'a list \<Rightarrow> nat \<Rightarrow> nat \<Rightarrow> 'a" where
  "lane_part in' kernel' m i =
     foldl (\<lambda>acc k. acc + kernel' ! (length kernel' - 1 - k) * in' ! (i + k)) 0 [0..<m]"

definition lane_at :: "'a::{zero,plus,times} list \<Rightarrow> 'a list \<Rightarrow> nat \<Rightarrow> 'a" where
  "lane_at in' kernel' i = lane_part in' kernel' (length kernel') i"

text \<open>
  The two accumulators of a block of an 8-wide routine, \<open>acc0\<close> and \<open>acc1\<close>, hold 8
  lanes each.
\<close>

definition lanes8 :: "('a list \<times> 'a list) \<Rightarrow> bool" where
  "lanes8 accs = (length (fst accs) = 8 \<and> length (snd accs) = 8)"

section \<open>Counting loops as lists of rounds\<close>

lemma foldM_append:
  "foldM f (xs @ ys) s = (case foldM f xs s of None \<Rightarrow> None | Some s' \<Rightarrow> foldM f ys s')"
  by (induction xs arbitrary: s) (auto split: option.splits)

lemma foldM_map: "foldM f (map g xs) s = foldM (\<lambda>x. f (g x)) xs s"
  by (induction xs arbitrary: s) (auto split: option.splits)

lemma foldM_snoc:
  "foldM f [0..<Suc m] s = (case foldM f [0..<m] s of None \<Rightarrow> None | Some s' \<Rightarrow> f m s')"
  by (simp add: foldM_append split: option.splits)

lemma trips_0: "\<not> i < n \<Longrightarrow> 0 < step \<Longrightarrow> trips i n step = 0"
proof -
  assume a: "\<not> i < n" "0 < step"
  then have "n - i + step - 1 \<le> step - 1" by simp
  then have "(n - i + step - 1) div step \<le> (step - 1) div step"
    using a(2) by (rule zdiv_mono1)
  also have "(step - 1) div step = 0"
    using a(2) by (simp add: div_pos_pos_trivial)
  finally show ?thesis by (simp add: trips_def)
qed

lemma trips_Suc: 
  assumes "i < n" "0 < step" 
  shows "trips i n step = Suc (trips (i + step) n step)"
proof -
  have e: "n - i + step - 1 = (n - (i + step) + step - 1) + 1 * step" by simp
  have "(n - i + step - 1) div step = (n - (i + step) + step - 1) div step + 1"
    unfolding e using assms(2) by (subst div_mult_self1) auto
  moreover have "0 \<le> (n - (i + step) + step - 1) div step"
    using assms by (simp add: pos_imp_zdiv_nonneg_iff)
  ultimately show ?thesis by (simp add: trips_def)
qed

lemma for_lt_foldM:
  "0 < step \<Longrightarrow>
   for_lt i n step body s = foldM (\<lambda>j. body (i + int j * step)) [0..<trips i n step] s"
proof (induction i n step body s rule: for_lt.induct)
  case (1 i n step body s)
  show ?case
  proof (cases "i < n")
    case False
    with 1(2) show ?thesis by (simp add: for_lt.simps trips_0)
  next
    case True
    have m: "[0..<Suc (trips (i + step) n step)] = 0 # map Suc [0..<trips (i + step) n step]"
      by (simp add: upt_conv_Cons map_Suc_upt del: upt_Suc)
    have c: "(\<lambda>x. body (i + (1 + int x) * step)) = (\<lambda>j. body (i + step + int j * step))"
      by (simp add: algebra_simps)
    show ?thesis
    proof (cases "body i s")
      case None
      then show ?thesis using True 1(2)
        by (subst for_lt.simps) (simp add: trips_Suc m del: upt_Suc)
    next
      case (Some s')
      have "for_lt i n step body s = for_lt (i + step) n step body s'"
        using True 1(2) Some by (subst for_lt.simps) simp
      also have "\<dots> = foldM (\<lambda>j. body (i + step + int j * step)) [0..<trips (i + step) n step] s'"
        using 1(1)[OF True 1(2) Some 1(2)] .
      finally show ?thesis using True 1(2) Some
        by (simp add: trips_Suc m foldM_map c del: upt_Suc)
    qed
  qed
qed

lemma for_le_lt: "for_le i n step body s = for_lt i (n + 1) step body s"
proof (induction i n step body s rule: for_le.induct)
  case (1 i n step body s)
  show ?case
  proof (cases "i \<le> n \<and> 0 < step")
    case False
    then show ?thesis
      by (subst for_le.simps, subst for_lt.simps) auto
  next
    case True
    show ?thesis
    proof (cases "body i s")
      case None
      then show ?thesis using True by (subst for_le.simps, subst for_lt.simps) simp
    next
      case (Some s')
      then show ?thesis using True 1[of s']
        by (subst for_le.simps, subst for_lt.simps) simp
    qed
  qed
qed

lemma trips_1: "trips 0 n 1 = nat n"
  by (simp add: trips_def)

lemma for_lt_upt: "for_lt 0 n 1 body s = foldM (\<lambda>j. body (int j)) [0..<nat n] s"
  by (simp add: for_lt_foldM trips_1)

lemma for_le_upt: "for_le 0 n 1 body s = foldM (\<lambda>j. body (int j)) [0..<nat (n + 1)] s"
  by (simp add: for_le_lt for_lt_upt)

lemma load_nat: "i < length buf \<Longrightarrow> load buf (int i) = Some (buf ! i)"
  by (simp add: load_def)

lemma store_nat:
  "i < length (cells m) \<Longrightarrow>
   store m (int i) v = Some (m\<lparr>cells := (cells m)[i := v], stores := stores m @ [int i]\<rparr>)"
  by (simp add: store_def)

lemma mac_nat:
  assumes "i < length (cells out)" "k < length kernel'" "i + k < length in'"
  shows "mac in' kernel' (int (length kernel')) (int i) (int k) out =
         Some (out\<lparr>cells := (cells out)[i := cells out ! i + in' ! (i + k) * kernel' ! (length kernel' - 1 - k)],
                    stores := stores out @ [int i]\<rparr>)"
proof -
  have c: "length kernel' - 1 - k < length kernel'" using assms(2) by linarith
  have l0: "load (cells out) (int i) = Some (cells out ! i)"
    using assms(1) by (rule load_nat)
  have l1: "load in' (int i + int k) = Some (in' ! (i + k))"
    using load_nat[OF assms(3)] by simp
  have "int (length kernel') - int k - 1 = int (length kernel' - 1 - k)"
    using assms(2) by linarith
  then have l2: "load kernel' (int (length kernel') - int k - 1) = Some (kernel' ! (length kernel' - 1 - k))"
    using load_nat[OF c] by simp
  show ?thesis
    unfolding mac_def l0 l1 l2 using assms(1) by (simp add: store_nat)
qed

lemma mac_loop:
  assumes "i < length (cells out)" "m \<le> length kernel'" "i + length kernel' \<le> length in'"
  shows "foldM (\<lambda>k. mac in' kernel' (int (length kernel')) (int i) (int k)) [0..<m] out =
         Some (out\<lparr>cells := (cells out)[i :=
                       foldl (\<lambda>acc k. acc + in' ! (i + k) * kernel' ! (length kernel' - 1 - k))
                         (cells out ! i) [0..<m]],
                    stores := stores out @ replicate m (int i)\<rparr>)"
  using assms(2)
proof (induction m)
  case 0
  show ?case by simp
next
  case (Suc m)
  then have m: "m < length kernel'" "m \<le> length kernel'" by simp_all
  have im: "i + m < length in'" using m assms(3) by linarith
  show ?case
    unfolding foldM_snoc Suc.IH[OF m(2)]
    using assms(1) m im
    by (simp add: mac_nat replicate_append_same)
qed

section \<open>What convolve_naive computes\<close>

lemma upd_prefix:
  "m < length cs \<Longrightarrow> length xs = m \<Longrightarrow> (xs @ drop m cs)[m := v] = xs @ v # drop (Suc m) cs"
  by (simp add: list_update_append flip: Cons_nth_drop_Suc)

lemma naive_body:
  assumes "i < length (cells out)" "i + length kernel' \<le> length in'"
  shows "(store out (int i) 0 \<bind>
            for_lt 0 (int (length kernel')) 1 (mac in' kernel' (int (length kernel')) (int i))) =
         Some (out\<lparr>cells := (cells out)[i := conv_at in' kernel' i],
                    stores := stores out @ replicate (Suc (length kernel')) (int i)\<rparr>)"
  using assms
  by (simp add: store_nat for_lt_upt mac_loop conv_at_def conv_part_def replicate_append_same)

lemma naive_outer:
  assumes "m \<le> length (cells out)" "m + length kernel' \<le> Suc (length in')"
  shows "foldM (\<lambda>i out. store out (int i) 0 \<bind>
            for_lt 0 (int (length kernel')) 1 (mac in' kernel' (int (length kernel')) (int i))) [0..<m] out =
         Some (out\<lparr>cells := map (conv_at in' kernel') [0..<m] @ drop m (cells out),
                    stores := stores out @ concat (map (\<lambda>j. replicate (Suc (length kernel')) (int j)) [0..<m])\<rparr>)"
  using assms
proof (induction m)
  case 0
  show ?case by simp
next
  case (Suc m)
  then have m: "m \<le> length (cells out)" "m + length kernel' \<le> Suc (length in')"
    "m < length (cells out)" "m + length kernel' \<le> length in'" by simp_all
  show ?case
    unfolding foldM_snoc Suc.IH[OF m(1,2)]
    using m(3,4) by (simp add: naive_body upd_prefix)
qed

lemma convolve_naive_result:
  assumes "length kernel' \<le> length in'"
      and "length (cells out) = length in' - length kernel' + 1"
  shows "convolve_naive in' out (int (length in')) kernel' (int (length kernel')) =
         Some (out\<lparr>cells := map (conv_at in' kernel') [0..<length in' - length kernel' + 1],
                    stores := stores out @ concat (map (\<lambda>j. replicate (Suc (length kernel')) (int j))
                                [0..<length in' - length kernel' + 1])\<rparr>, 0)"
proof -
  have n: "nat (int (length in') - int (length kernel') + 1) = length in' - length kernel' + 1"
    using assms(1) by linarith
  have "for_le 0 (int (length in') - int (length kernel')) 1 (\<lambda>i out. store out i 0 \<bind>
            for_lt 0 (int (length kernel')) 1 (mac in' kernel' (int (length kernel')) i)) out
     = Some (out\<lparr>cells := map (conv_at in' kernel') [0..<length in' - length kernel' + 1],
                    stores := stores out @ concat (map (\<lambda>j. replicate (Suc (length kernel')) (int j))
                                [0..<length in' - length kernel' + 1])\<rparr>)"
    unfolding for_le_upt n
    using assms by (subst naive_outer) simp_all
  then show ?thesis
    unfolding convolve_naive_def by simp
qed

text \<open>
  Claim C1. For a signal of length \<open>N \<ge> 1\<close> and a kernel of length \<open>K\<close> with
  \<open>1 \<le> K \<le> N\<close>, and an output buffer of \<open>N - K + 1\<close> cells, \<open>convolve_naive\<close> returns
  status 0 and leaves in every cell \<open>i\<close>, \<open>0 \<le> i \<le> N - K\<close>, the sum of the products
  \<open>in[i+k] * kernel[K-1-k]\<close>, accumulated from \<open>0\<close> for \<open>k = 0, ..., K-1\<close> in this order:
  the kernel index descends while the data index ascends.
\<close>

theorem convolve_naive_valid_sum:
  fixes in' kernel' :: "'a::{zero,plus,times} list"
  assumes "1 \<le> length kernel'" and "length kernel' \<le> length in'"
      and "length (cells out) = length in' - length kernel' + 1"
  shows "\<exists>out'. convolve_naive in' out (int (length in')) kernel' (int (length kernel')) = Some (out', 0)
           \<and> length (cells out') = length in' - length kernel' + 1
           \<and> (\<forall>i\<le>length in' - length kernel'.
                 cells out' ! i =
                   foldl (\<lambda>acc k. acc + in' ! (i + k) * kernel' ! (length kernel' - 1 - k)) 0
                     [0..<length kernel'])"
proof -
  let ?M = "length in' - length kernel'"
  have "\<forall>i\<le>?M. map (conv_at in' kernel') [0..<?M + 1] ! i = conv_at in' kernel' i"
  proof (intro allI impI)
    fix i assume "i \<le> ?M"
    then have "i < length [0..<?M + 1]" by simp
    then show "map (conv_at in' kernel') [0..<?M + 1] ! i = conv_at in' kernel' i"
      by (simp del: upt_Suc)
  qed
  then show ?thesis
    unfolding convolve_naive_result[OF assms(2,3)]
    by (simp add: conv_at_def conv_part_def del: upt_Suc)
qed

theorem convolve_naive_valid_sum_witness:
  "1 \<le> length [1, 0, - 1 :: int] \<and> length [1, 0, - 1 :: int] \<le> length [1, 2, 3, 4, 5 :: int]
   \<and> (\<exists>out'. convolve_naive [1, 2, 3, 4, 5 :: int] \<lparr>cells = [7, 7, 7], stores = []\<rparr> 5 [1, 0, - 1] 3
                = Some (out', 0)
           \<and> length (cells out') = 3
           \<and> cells out' ! 0 = 0 + 1 * (- 1) + 2 * 0 + 3 * 1
           \<and> cells out' ! 1 = 0 + 2 * (- 1) + 3 * 0 + 4 * 1
           \<and> cells out' ! 2 = 0 + 3 * (- 1) + 4 * 0 + 5 * 1)"
  using convolve_naive_valid_sum [of "[1, 0, - 1 :: int]" "[1, 2, 3, 4, 5]" "\<lparr>cells = [7, 7, 7], stores = []\<rparr>"]
  by (auto simp: upt_rec numeral_nat le_Suc_eq)

text \<open>
  Claim C7. With a kernel of one coefficient the reference routine scales the signal:
  \<open>out[i] = in[i] * kernel[0]\<close> for every \<open>i\<close> below \<open>N\<close>. The routine computes
  \<open>0 + in[i] * kernel[0]\<close>; the one law used is that adding to zero changes nothing.
\<close>

theorem convolve_naive_single_tap:
  fixes in' kernel' :: "'a::{zero,plus,times} list"
  assumes "\<And>x :: 'a. 0 + x = x"
      and "length kernel' = 1" and "1 \<le> length in'"
      and "length (cells out) = length in'"
  shows "\<exists>out'. convolve_naive in' out (int (length in')) kernel' 1 = Some (out', 0)
           \<and> length (cells out') = length in'
           \<and> (\<forall>i<length in'. cells out' ! i = in' ! i * kernel' ! 0)"
proof -
  have c: "conv_at in' kernel' i = in' ! i * kernel' ! 0" for i
    by (simp add: conv_at_def conv_part_def assms(1,2))
  have l: "length (cells out) = length in' - length kernel' + 1" "length kernel' \<le> length in'"
    using assms by simp_all
  from convolve_naive_result[OF l(2,1)]
  show ?thesis
    using assms(2,3) by (simp add: c del: upt_Suc)
qed

theorem convolve_naive_single_tap_witness:
  "(\<forall>x :: int. 0 + x = x) \<and> length [3 :: int] = 1 \<and> 1 \<le> length [1, 2, 4 :: int]
   \<and> (\<exists>out'. convolve_naive [1, 2, 4 :: int] \<lparr>cells = [7, 7, 7], stores = []\<rparr> 3 [3] 1 = Some (out', 0)
           \<and> cells out' = [1 * 3, 2 * 3, 4 * 3])"
  using convolve_naive_single_tap [of "[3 :: int]" "[1, 2, 4]" "\<lparr>cells = [7, 7, 7], stores = []\<rparr>"]
  by (auto simp: list_eq_iff_nth_eq less_Suc_eq numeral_nat)

section \<open>What convolve_reversed_naive computes\<close>

lemma zero_loop:
  "m \<le> length (cells out) \<Longrightarrow>
   foldM (\<lambda>i out. store out (int i) 0) [0..<m] out =
   Some (out\<lparr>cells := replicate m 0 @ drop m (cells out), stores := stores out @ map int [0..<m]\<rparr>)"
proof (induction m)
  case 0
  show ?case by simp
next
  case (Suc m)
  then have m: "m \<le> length (cells out)" "m < length (cells out)" by simp_all
  show ?case
    unfolding foldM_snoc Suc.IH[OF m(1)]
    using m(2) by (simp add: store_nat upd_prefix replicate_append_same)
qed

lemma mac_value_nat:
  assumes "i < length (cells out)" "i + k < length in'"
  shows "mac_value in' v (int k) (int i) out =
         Some (out\<lparr>cells := (cells out)[i := cells out ! i + in' ! (i + k) * v],
                    stores := stores out @ [int i]\<rparr>)"
proof -
  have l0: "load (cells out) (int i) = Some (cells out ! i)"
    using assms(1) by (rule load_nat)
  have l1: "load in' (int i + int k) = Some (in' ! (i + k))"
    using load_nat[OF assms(2)] by simp
  show ?thesis
    unfolding mac_value_def l0 l1 using assms(1) by (simp add: store_nat)
qed

lemma mac_value_loop:
  assumes "m \<le> length cs" "m + k \<le> length in'" "cells out = cs"
  shows "foldM (\<lambda>i. mac_value in' v (int k) (int i)) [0..<m] out =
         Some (out\<lparr>cells := map (\<lambda>i. cs ! i + in' ! (i + k) * v) [0..<m] @ drop m cs,
                    stores := stores out @ map int [0..<m]\<rparr>)"
  using assms(1,2)
proof (induction m)
  case 0
  show ?case using assms(3) by simp
next
  case (Suc m)
  then have m: "m \<le> length cs" "m + k \<le> length in'" "m < length cs" "m + k < length in'"
    by simp_all
  show ?case
    unfolding foldM_snoc Suc.IH[OF m(1,2)]
    using m(3,4) by (simp add: mac_value_nat upd_prefix nth_append)
qed

lemma conv_part_Suc:
  "conv_part in' kernel' (Suc k) i =
   conv_part in' kernel' k i + in' ! (i + k) * kernel' ! (length kernel' - 1 - k)"
  by (simp add: conv_part_def)

lemma reversed_round:
  assumes "k < length kernel'" "L + length kernel' \<le> Suc (length in')"
      and "cells out = map (conv_part in' kernel' k) [0..<L]"
  shows "(load kernel' (int (length kernel') - int k - 1) \<bind>
           (\<lambda>kernel_value. foldM (\<lambda>i. mac_value in' kernel_value (int k) (int i)) [0..<L] out)) =
         Some (out\<lparr>cells := map (conv_part in' kernel' (Suc k)) [0..<L],
                    stores := stores out @ map int [0..<L]\<rparr>)"
proof -
  have c: "length kernel' - 1 - k < length kernel'" using assms(1) by linarith
  have "int (length kernel') - int k - 1 = int (length kernel' - 1 - k)"
    using assms(1) by linarith
  then have l2: "load kernel' (int (length kernel') - int k - 1) = Some (kernel' ! (length kernel' - 1 - k))"
    using load_nat[OF c] by simp
  have lk: "L + k \<le> length in'" using assms(1,2) by linarith
  have e: "map (\<lambda>i. map (conv_part in' kernel' k) [0..<L] ! i + in' ! (i + k) * kernel' ! (length kernel' - 1 - k)) [0..<L]
         = map (conv_part in' kernel' (Suc k)) [0..<L]"
    by (rule map_cong) (simp_all add: conv_part_Suc)
  show ?thesis
    unfolding l2 using e
    by (simp add: mac_value_loop[OF _ lk assms(3)] del: upt_Suc)
qed

lemma concat_replicate_snoc: "concat (replicate (Suc n) xs) = concat (replicate n xs) @ xs"
  by (induction n) simp_all

lemma reversed_outer:
  assumes "k0 \<le> length kernel'" "L + length kernel' \<le> Suc (length in')"
      and "cells out = map (conv_part in' kernel' 0) [0..<L]"
  shows "foldM (\<lambda>k out. load kernel' (int (length kernel') - int k - 1) \<bind>
           (\<lambda>kernel_value. foldM (\<lambda>i. mac_value in' kernel_value (int k) (int i)) [0..<L] out)) [0..<k0] out =
         Some (out\<lparr>cells := map (conv_part in' kernel' k0) [0..<L],
                    stores := stores out @ concat (replicate k0 (map int [0..<L]))\<rparr>)"
  using assms(1)
proof (induction k0)
  case 0
  show ?case using assms(3) by simp
next
  case (Suc k0)
  then have k: "k0 \<le> length kernel'" "k0 < length kernel'" by simp_all
  show ?case
    unfolding foldM_snoc Suc.IH[OF k(1)]
    by (simp add: reversed_round[OF k(2) assms(2)] concat_replicate_snoc del: upt_Suc replicate.simps)
qed

lemma convolve_reversed_naive_result:
  assumes "length kernel' \<le> length in'"
      and "length (cells out) = length in' - length kernel' + 1"
  shows "convolve_reversed_naive in' out (int (length in')) kernel' (int (length kernel')) =
         Some (out\<lparr>cells := map (conv_at in' kernel') [0..<length in' - length kernel' + 1],
                    stores := stores out @ map int [0..<length in' - length kernel' + 1]
                       @ concat (replicate (length kernel') (map int [0..<length in' - length kernel' + 1]))\<rparr>, 0)"
proof -
  define L where "L = length in' - length kernel' + 1"
  define out1 where "out1 = out\<lparr>cells := replicate L 0, stores := stores out @ map int [0..<L]\<rparr>"
  have n: "nat (int (length in') - int (length kernel') + 1) = L"
    using assms(1) unfolding L_def by linarith
  have len: "length (cells out) = L" using assms(2) by (simp add: L_def)
  have s1: "for_le 0 (int (length in') - int (length kernel')) 1 (\<lambda>i out. store out i 0) out = Some out1"
    unfolding for_le_upt n out1_def using len by (simp add: zero_loop)
  have "conv_part in' kernel' 0 = (\<lambda>i. 0)"
    by (simp add: conv_part_def fun_eq_iff)
  then have z: "cells out1 = map (conv_part in' kernel' 0) [0..<L]"
    by (simp add: out1_def map_replicate_const)
  have Lk: "L + length kernel' \<le> Suc (length in')" using assms(1) unfolding L_def by linarith
  have conv: "conv_part in' kernel' (length kernel') = conv_at in' kernel'"
    by (simp add: conv_at_def fun_eq_iff)
  have s2: "for_lt 0 (int (length kernel')) 1 (\<lambda>k out. load kernel' (int (length kernel') - k - 1) \<bind>
              (\<lambda>kernel_value. for_le 0 (int (length in') - int (length kernel')) 1
                  (mac_value in' kernel_value k) out)) out1 =
            Some (out1\<lparr>cells := map (conv_at in' kernel') [0..<L],
                    stores := stores out1 @ concat (replicate (length kernel') (map int [0..<L]))\<rparr>)"
    unfolding for_le_upt for_lt_upt n
    using reversed_outer[OF order_refl Lk z] by (simp add: conv)
  show ?thesis
    unfolding convolve_reversed_naive_def s1 L_def[symmetric]
    by (simp add: s2) (simp add: out1_def)
qed

lemma count_list_replicate_eq: "count_list (replicate n x) y = (if x = y then n else 0)"
  by (induction n) auto

lemma count_list_concat_replicate: "count_list (concat (replicate n xs)) y = n * count_list xs y"
  by (induction n) simp_all

lemma count_list_upt_int:
  "count_list (map int [0..<L]) i = (if 0 \<le> i \<and> i < int L then 1 else 0)"
  by (induction L) auto

lemma count_list_naive_stores:
  "count_list (concat (map (\<lambda>j. replicate n (int j)) [0..<L])) i =
   (if 0 \<le> i \<and> i < int L then n else 0)"
  by (induction L) (auto simp: count_list_replicate_eq)

text \<open>
  Claim C6, as the code has it. Neither routine writes a cell once: \<open>convolve_naive\<close>
  stores \<open>0\<close> to \<open>out[i]\<close> and then accumulates in place, one store per kernel
  coefficient, and \<open>convolve_sse_simple\<close> stores its last sample again after the vector
  loop. For the two scalar routines, a valid input (\<open>1 \<le> K \<le> N\<close>, an output buffer of
  \<open>N - K + 1\<close> cells): every cell \<open>0, ..., N - K\<close> is stored to exactly \<open>K + 1\<close> times
  (so the buffer is overwritten completely), no other index is stored to, and the cells
  at return hold the sums \<open>conv_at\<close>, whatever the buffer held before the call.
\<close>

theorem scalar_routines_store_counts:
  fixes in' kernel' :: "'a::{zero,plus,times} list"
  assumes "1 \<le> length kernel'" and "length kernel' \<le> length in'"
      and "length (cells out) = length in' - length kernel' + 1"
      and "stores out = []"
  shows "\<exists>o1 o2.
           convolve_naive in' out (int (length in')) kernel' (int (length kernel')) = Some (o1, 0)
         \<and> convolve_reversed_naive in' out (int (length in')) kernel' (int (length kernel')) = Some (o2, 0)
         \<and> (\<forall>i. count_list (stores o1) i =
                  (if 0 \<le> i \<and> i \<le> int (length in') - int (length kernel')
                   then length kernel' + 1 else 0))
         \<and> (\<forall>i. count_list (stores o2) i =
                  (if 0 \<le> i \<and> i \<le> int (length in') - int (length kernel')
                   then length kernel' + 1 else 0))
         \<and> cells o1 = map (conv_at in' kernel') [0..<length in' - length kernel' + 1]
         \<and> cells o2 = map (conv_at in' kernel') [0..<length in' - length kernel' + 1]"
proof -
  define L where "L = length in' - length kernel' + 1"
  have r: "i \<le> int (length in') - int (length kernel') \<longleftrightarrow> i < int L" for i
    using assms(2) unfolding L_def by linarith
  show ?thesis
    unfolding convolve_naive_result[OF assms(2,3)] convolve_reversed_naive_result[OF assms(2,3)]
      L_def[symmetric] r
    by (simp add: assms(4) count_list_naive_stores count_list_concat_replicate count_list_upt_int
          del: upt_Suc replicate.simps)
qed

theorem scalar_routines_store_counts_witness:
  "1 \<le> length [3 :: int] \<and> length [3 :: int] \<le> length [5, 6 :: int]
   \<and> (\<exists>o1 o2.
           convolve_naive [5, 6 :: int] \<lparr>cells = [7, 7], stores = []\<rparr> 2 [3] 1 = Some (o1, 0)
         \<and> convolve_reversed_naive [5, 6 :: int] \<lparr>cells = [7, 7], stores = []\<rparr> 2 [3] 1 = Some (o2, 0)
         \<and> (\<forall>i. count_list (stores o1) i = (if 0 \<le> i \<and> i \<le> 1 then 2 else 0))
         \<and> (\<forall>i. count_list (stores o2) i = (if 0 \<le> i \<and> i \<le> 1 then 2 else 0))
         \<and> cells o1 = [15, 18] \<and> cells o2 = [15, 18])"
  using scalar_routines_store_counts [of "[3 :: int]" "[5, 6]" "\<lparr>cells = [7, 7], stores = []\<rparr>"]
  by (simp add: conv_at_def conv_part_def numeral_2_eq_2 split del: if_split cong: if_cong)

text \<open>
  The claim as stated fails: for \<open>N = K = 1\<close> the reference routine stores to \<open>out[0]\<close>
  twice (\<open>out[0] = 0.0\<close>, then \<open>out[0] += ...\<close>), and for \<open>N = 7\<close>, \<open>K = 4\<close> the cell
  \<open>out[3]\<close> is written by the vector store of \<open>convolve_sse_simple\<close> and five times more
  by its scalar code for the last sample.
\<close>

theorem written_once_counterexample:
  "convolve_naive [5 :: int] \<lparr>cells = [7], stores = []\<rparr> 1 [3] 1
     = Some (\<lparr>cells = [15], stores = [0, 0]\<rparr>, 0)
   \<and> count_list [0, 0 :: int] 0 = 2
   \<and> convolve_sse_simple [1, 2, 3, 4, 5, 6, 7 :: int] \<lparr>cells = [7, 7, 7, 7], stores = []\<rparr> 7
         [1, 2, 3, 4] 4
     = Some (\<lparr>cells = [20, 30, 40, 50], stores = [0, 1, 2, 3, 3, 3, 3, 3, 3]\<rparr>, 0)
   \<and> count_list [0, 1, 2, 3, 3, 3, 3, 3, 3 :: int] 3 = 6"
  by code_simp

lemma kernel_only_rounds:
  "n \<le> length kernel' \<Longrightarrow>
   foldM (\<lambda>j out. load kernel' (int (length kernel') - int j - 1) \<bind> (\<lambda>kernel_value. Some out))
     [0..<n] out = Some out"
proof (induction n)
  case 0
  show ?case by simp
next
  case (Suc n)
  then have n: "n \<le> length kernel'" "n < length kernel'" by simp_all
  have "int (length kernel') - int n - 1 = int (length kernel' - 1 - n)"
    using n(2) by linarith
  moreover have "length kernel' - 1 - n < length kernel'" using n(2) by linarith
  ultimately have "load kernel' (int (length kernel') - int n - 1) = Some (kernel' ! (length kernel' - 1 - n))"
    using load_nat[of "length kernel' - 1 - n" kernel'] by simp
  then show ?case
    unfolding foldM_snoc Suc.IH[OF n(1)] by simp
qed

text \<open>
  Claim C10. With a kernel longer than the signal (\<open>K > N \<ge> 0\<close>) the two scalar
  routines return status 0 and leave the output buffer as it was: no cell changes and no
  store is made, and no access leaves its buffer. In \<open>convolve_naive\<close> no loop body runs;
  in \<open>convolve_reversed_naive\<close> the loop over the kernel still makes its \<open>K\<close> rounds, each
  reading one coefficient (inside the kernel buffer), while its inner loop over the
  output makes none.
\<close>

theorem scalar_routines_short_signal:
  fixes in' kernel' :: "'a::{zero,plus,times} list"
  assumes "0 \<le> length'" and "length' < int (length kernel')"
  shows "convolve_naive in' out length' kernel' (int (length kernel')) = Some (out, 0)
       \<and> convolve_reversed_naive in' out length' kernel' (int (length kernel')) = Some (out, 0)"
proof -
  have stop: "for_le 0 (length' - int (length kernel')) 1 body s = Some s"
    for body and s :: "'a mem"
    using assms(2) by (subst for_le.simps) simp
  have "for_lt 0 (int (length kernel')) 1 (\<lambda>k out. load kernel' (int (length kernel') - k - 1) \<bind>
          (\<lambda>kernel_value. for_le 0 (length' - int (length kernel')) 1 (mac_value in' kernel_value k) out)) out
        = Some out"
    unfolding stop for_lt_upt by (simp add: kernel_only_rounds)
  then show ?thesis
    unfolding convolve_naive_def convolve_reversed_naive_def stop by simp
qed

theorem scalar_routines_short_signal_witness:
  "(0 :: int) \<le> 2 \<and> 2 < int (length [1, 0, - 1 :: int])
   \<and> convolve_naive [1, 2 :: int] \<lparr>cells = [7, 8], stores = []\<rparr> 2 [1, 0, - 1] 3
       = Some (\<lparr>cells = [7, 8], stores = []\<rparr>, 0)
   \<and> convolve_reversed_naive [1, 2 :: int] \<lparr>cells = [7, 8], stores = []\<rparr> 2 [1, 0, - 1] 3
       = Some (\<lparr>cells = [7, 8], stores = []\<rparr>, 0)"
  using scalar_routines_short_signal [of 2 "[1, 0, - 1 :: int]" "[1, 2]" "\<lparr>cells = [7, 8], stores = []\<rparr>"]
  by simp

section \<open>The 8-wide routines and the parameter kernel_length\<close>

lemma for_lt_cong:
  assumes "\<And>j s. i \<le> j \<Longrightarrow> j < n \<Longrightarrow> body j s = body' j s"
  shows "for_lt i n step body s = for_lt i n step body' s"
  using assms
proof (induction i n step body s rule: for_lt.induct)
  case (1 i n step body s)
  note unf = for_lt.simps[of i n step body s] for_lt.simps[of i n step body' s]
  show ?case
  proof (cases "i < n \<and> 0 < step")
    case False
    then show ?thesis unfolding unf by auto
  next
    case True
    have b: "body i s = body' i s" using 1(2)[of i s] True by simp
    show ?thesis
    proof (cases "body i s")
      case None
      then show ?thesis using True b unfolding unf by simp
    next
      case (Some s')
      have "for_lt (i + step) n step body s' = for_lt (i + step) n step body' s'"
        using True Some by (intro 1(1)) (auto intro: 1(2))
      moreover have "body' i s = Some s'" using b Some by simp
      ultimately show ?thesis using True Some unfolding unf by simp
    qed
  qed
qed

lemma load_take:
  "j < int n \<Longrightarrow> load (take n buf) j = load buf j"
  by (auto simp: load_def)

lemma broadcast_kernel_take: "broadcast_kernel (take 16 kernel') = broadcast_kernel kernel'"
  unfolding broadcast_kernel_def
  by (rule for_lt_cong) (simp add: mm256_broadcast_ss_def KERNEL_LENGTH_def load_take)

lemma broadcast_kernel_block_take:
  "broadcast_kernel_block (take 16 kernel') = broadcast_kernel_block kernel'"
proof -
  have "for_lt 0 AVX_SIMD_LENGTH 1 (\<lambda>j kernel_block.
           load (take 16 kernel') (KERNEL_LENGTH - i - 1) \<bind> local_store kernel_block j) kb
      = for_lt 0 AVX_SIMD_LENGTH 1 (\<lambda>j kernel_block.
           load kernel' (KERNEL_LENGTH - i - 1) \<bind> local_store kernel_block j) kb"
    if "0 \<le> i" for i and kb :: "'a list"
    using that by (simp add: KERNEL_LENGTH_def load_take)
  then show ?thesis
    unfolding broadcast_kernel_block_def
    by (intro arg_cong2[where f = Option.bind] refl for_lt_cong) (simp add: fun_eq_iff)
qed

lemma mac_take:
  "0 \<le> k \<Longrightarrow> mac src (take 16 kernel') KERNEL_LENGTH i k out = mac src kernel' KERNEL_LENGTH i k out"
  by (simp add: mac_def KERNEL_LENGTH_def load_take)

lemma last_sample_take: "last_sample src (take 16 kernel') i out = last_sample src kernel' i out"
proof -
  have "for_lt 0 KERNEL_LENGTH 1 (mac src (take 16 kernel') KERNEL_LENGTH i) s
      = for_lt 0 KERNEL_LENGTH 1 (mac src kernel' KERNEL_LENGTH i) s" for s
    by (rule for_lt_cong) (simp add: mac_take)
  then show ?thesis by (simp add: last_sample_def)
qed

lemmas avx_take = broadcast_kernel_take broadcast_kernel_block_take last_sample_take

lemma avx_only_first_16:
  "convolve_avx_unrolled_vector in' out length' (take 16 kernel') kl' =
     convolve_avx_unrolled_vector in' out length' kernel' kl"
  "convolve_avx_unrolled_vector_unaligned in' out length' (take 16 kernel') kl' =
     convolve_avx_unrolled_vector_unaligned in' out length' kernel' kl"
  "convolve_avx_unrolled_vector_unaligned_fma in' out length' (take 16 kernel') kl' =
     convolve_avx_unrolled_vector_unaligned_fma in' out length' kernel' kl"
  "convolve_avx_unrolled_vector_m128_load in' out length' (take 16 kernel') kl' =
     convolve_avx_unrolled_vector_m128_load in' out length' kernel' kl"
  "convolve_avx_unrolled_vector_aligned in' out length' (take 16 kernel') kl' =
     convolve_avx_unrolled_vector_aligned in' out length' kernel' kl"
  "convolve_avx_unrolled_vector_partial_aligned in' out length' (take 16 kernel') kl' =
     convolve_avx_unrolled_vector_partial_aligned in' out length' kernel' kl"
  "convolve_avx_unrolled_vector_local_output in' out length' (take 16 kernel') kl' =
     convolve_avx_unrolled_vector_local_output in' out length' kernel' kl"
  unfolding convolve_avx_unrolled_vector_def convolve_avx_unrolled_vector_unaligned_def
    convolve_avx_unrolled_vector_unaligned_fma_def convolve_avx_unrolled_vector_m128_load_def
    convolve_avx_unrolled_vector_aligned_def convolve_avx_unrolled_vector_partial_aligned_def
    convolve_avx_unrolled_vector_local_output_def avx_take
  by (rule refl)+

text \<open>
  Claim C9. The seven routines compiled under \<open>AVX\<close> never read their parameter
  \<open>kernel_length\<close> and read the kernel only at the indices \<open>0, ..., 15\<close>
  (\<open>KERNEL_LENGTH = 16\<close> is a compile-time constant): two calls with the same signal,
  output buffer and \<open>length\<close>, and kernels that agree on their first 16 coefficients,
  give the same result, whatever the two values of \<open>kernel_length\<close> and whatever the
  kernels hold from index 16 on.
\<close>

theorem avx_routines_ignore_kernel_length:
  fixes in' kernel1 kernel2 :: "'a::{zero,plus,times} list"
  assumes "take 16 kernel1 = take 16 kernel2"
  shows "convolve_avx_unrolled_vector in' out length' kernel1 kl1 =
           convolve_avx_unrolled_vector in' out length' kernel2 kl2
       \<and> convolve_avx_unrolled_vector_unaligned in' out length' kernel1 kl1 =
           convolve_avx_unrolled_vector_unaligned in' out length' kernel2 kl2
       \<and> convolve_avx_unrolled_vector_unaligned_fma in' out length' kernel1 kl1 =
           convolve_avx_unrolled_vector_unaligned_fma in' out length' kernel2 kl2
       \<and> convolve_avx_unrolled_vector_m128_load in' out length' kernel1 kl1 =
           convolve_avx_unrolled_vector_m128_load in' out length' kernel2 kl2
       \<and> convolve_avx_unrolled_vector_aligned in' out length' kernel1 kl1 =
           convolve_avx_unrolled_vector_aligned in' out length' kernel2 kl2
       \<and> convolve_avx_unrolled_vector_partial_aligned in' out length' kernel1 kl1 =
           convolve_avx_unrolled_vector_partial_aligned in' out length' kernel2 kl2
       \<and> convolve_avx_unrolled_vector_local_output in' out length' kernel1 kl1 =
           convolve_avx_unrolled_vector_local_output in' out length' kernel2 kl2"
  using avx_only_first_16[of in' out length' kernel1 kl1 kl1, symmetric]
        avx_only_first_16[of in' out length' kernel2 kl1 kl2]
  unfolding assms by simp

theorem avx_routines_ignore_kernel_length_witness:
  "take 16 (replicate 16 2 @ [5 :: int]) = take 16 (replicate 16 2 @ [6, 7 :: int])
   \<and> convolve_avx_unrolled_vector (replicate 32 1) \<lparr>cells = replicate 17 0, stores = []\<rparr> 32
         (replicate 16 2 @ [5 :: int]) 17 =
       convolve_avx_unrolled_vector (replicate 32 1) \<lparr>cells = replicate 17 0, stores = []\<rparr> 32
         (replicate 16 2 @ [6, 7]) 3
   \<and> convolve_avx_unrolled_vector_unaligned (replicate 32 1) \<lparr>cells = replicate 17 0, stores = []\<rparr> 32
         (replicate 16 2 @ [5 :: int]) 17 =
       convolve_avx_unrolled_vector_unaligned (replicate 32 1) \<lparr>cells = replicate 17 0, stores = []\<rparr> 32
         (replicate 16 2 @ [6, 7]) 3"
  using avx_routines_ignore_kernel_length
    [of "replicate 16 2 @ [5 :: int]" "replicate 16 2 @ [6, 7]" "replicate 32 1"
        "\<lparr>cells = replicate 17 0, stores = []\<rparr>" 32 17 3]
  by simp

section \<open>What convolve_sse_simple computes, and where\<close>

text \<open>
  The vector loop of \<open>convolve_sse_simple\<close> runs while \<open>i < N - K\<close>, and every round
  loads four samples at \<open>in + i + k\<close> for each \<open>k < K\<close> and stores four at \<open>out + i\<close>.
  The scalar code after it computes the one sample \<open>out[N-K]\<close>. So the routine is
  written for \<open>N - K\<close> a multiple of 4 (the loop covers \<open>out[0..N-K-1]\<close>, the scalar
  code the last sample); it also stays inside its buffers when \<open>N - K + 1\<close> is a multiple
  of 4 (the loop covers everything and the scalar code rewrites the last sample). For
  the other two remainders the last round of the loop crosses the end of both buffers.
\<close>

lemma lane_part_Suc:
  "lane_part in' kernel' (Suc m) i =
   lane_part in' kernel' m i + kernel' ! (length kernel' - 1 - m) * in' ! (i + m)"
  by (simp add: lane_part_def)

lemma lane_part_0: "lane_part in' kernel' 0 i = 0"
  by (simp add: lane_part_def)

lemma upt_4: "[p..<p + 4] = [p, p + 1, p + 2, p + 3]"
  by (simp add: upt_rec[of p] upt_rec[of "Suc p"] upt_rec[of "Suc (Suc p)"] upt_rec[of "Suc (Suc (Suc p))"] numeral_eq_Suc)

lemma take4_drop:
  assumes "p + 4 \<le> length xs"
  shows "take 4 (drop p xs) = [xs ! p, xs ! (p + 1), xs ! (p + 2), xs ! (p + 3)]"
proof (rule nth_equalityI)
  show "length (take 4 (drop p xs)) = length [xs ! p, xs ! (p + 1), xs ! (p + 2), xs ! (p + 3)]"
    using assms by simp
next
  fix i assume "i < length (take 4 (drop p xs))"
  then have "i < 4" by simp
  then consider "i = 0" | "i = 1" | "i = 2" | "i = 3" by linarith
  then show "take 4 (drop p xs) ! i = [xs ! p, xs ! (p + 1), xs ! (p + 2), xs ! (p + 3)] ! i"
    using assms by cases (simp_all add: numeral_eq_Suc)
qed

lemma vec_load4:
  "p + 4 \<le> length xs \<Longrightarrow>
   vec_load 4 xs (int p) = Some [xs ! p, xs ! (p + 1), xs ! (p + 2), xs ! (p + 3)]"
  by (simp add: vec_load_def take4_drop)

lemma vec_load4_None: "length xs < p + 4 \<Longrightarrow> vec_load 4 xs (int p) = None"
  by (simp add: vec_load_def)

lemma kernel_reverse_build:
  "m \<le> length kernel' \<Longrightarrow>
   foldM (\<lambda>i kernel_reverse. load kernel' (int (length kernel') - int i - 1) \<bind>
            (\<lambda>c. Some (kernel_reverse @ [mm_set1_ps c]))) [0..<m] [] =
   Some (map (\<lambda>i. replicate 4 (kernel' ! (length kernel' - 1 - i))) [0..<m])"
proof (induction m)
  case 0
  show ?case by simp
next
  case (Suc m)
  then have m: "m \<le> length kernel'" "m < length kernel'" by simp_all
  have c: "length kernel' - 1 - m < length kernel'" using m(2) by linarith
  have "int (length kernel') - int m - 1 = int (length kernel' - 1 - m)"
    using m(2) by linarith
  then have l: "load kernel' (int (length kernel') - int m - 1) = Some (kernel' ! (length kernel' - 1 - m))"
    using load_nat[OF c] by simp
  show ?case
    unfolding foldM_snoc Suc.IH[OF m(1)] by (simp add: l mm_set1_ps_def)
qed

lemma nth_kernel_reverse:
  "k < length kernel' \<Longrightarrow>
   load (map (\<lambda>i. replicate 4 (kernel' ! (length kernel' - 1 - i))) [0..<length kernel']) (int k)
     = Some (replicate 4 (kernel' ! (length kernel' - 1 - k)))"
  by (simp add: load_def)

lemma replicate_4: "replicate 4 x = [x, x, x, x]"
  by (simp add: numeral_eq_Suc)

lemma sse_acc_loop:
  assumes "i + length kernel' + 3 \<le> length in'" "m \<le> length kernel'"
      and "kernel_reverse = map (\<lambda>i. replicate 4 (kernel' ! (length kernel' - 1 - i))) [0..<length kernel']"
  shows "foldM (\<lambda>k acc. mm_loadu_ps in' (int i + int k) \<bind> (\<lambda>data_block.
            load kernel_reverse (int k) \<bind> (\<lambda>kr.
              let prod = mm_mul_ps kr data_block in Some (mm_add_ps acc prod)))) [0..<m] mm_setzero_ps =
         Some [lane_part in' kernel' m i, lane_part in' kernel' m (i + 1),
               lane_part in' kernel' m (i + 2), lane_part in' kernel' m (i + 3)]"
  using assms(2)
proof (induction m)
  case 0
  show ?case by (simp add: mm_setzero_ps_def lane_part_0 replicate_4)
next
  case (Suc m)
  then have m: "m \<le> length kernel'" "m < length kernel'" by simp_all
  have "i + m + 4 \<le> length in'" using assms(1) m(2) by linarith
  then have "vec_load 4 in' (int (i + m)) =
      Some [in' ! (i + m), in' ! (i + m + 1), in' ! (i + m + 2), in' ! (i + m + 3)]"
    by (rule vec_load4)
  moreover have "i + m + 1 = i + 1 + m" "i + m + 2 = i + 2 + m" "i + m + 3 = i + 3 + m"
    by simp_all
  ultimately have l: "mm_loadu_ps in' (int i + int m) =
      Some [in' ! (i + m), in' ! (i + 1 + m), in' ! (i + 2 + m), in' ! (i + 3 + m)]"
    unfolding mm_loadu_ps_def by (simp only: of_nat_add)
  have k: "load kernel_reverse (int m) = Some (replicate 4 (kernel' ! (length kernel' - 1 - m)))"
    unfolding assms(3) using m(2) by (rule nth_kernel_reverse)
  show ?case
    unfolding foldM_snoc Suc.IH[OF m(1)]
    by (simp add: l k mm_mul_ps_def mm_add_ps_def replicate_4 lane_part_Suc)
qed

lemma sse_acc_loop_None:
  assumes "length in' < i + length kernel' + 3" "0 < length kernel'"
  shows "foldM (\<lambda>k acc. mm_loadu_ps in' (int i + int k) \<bind> (\<lambda>data_block.
            load kernel_reverse (int k) \<bind> (\<lambda>kr.
              let prod = mm_mul_ps kr data_block in Some (mm_add_ps acc prod)))) [0..<length kernel'] acc0 = None"
proof -
  obtain m where K: "length kernel' = Suc m" using assms(2) by (cases "length kernel'") auto
  have "length in' < i + m + 4" using assms(1) K by linarith
  then have "mm_loadu_ps in' (int i + int m) = None"
    using vec_load4_None[of in' "i + m"] by (simp add: mm_loadu_ps_def)
  then show ?thesis
    unfolding K foldM_snoc by (simp split: option.splits)
qed

lemma vec_store4:
  assumes "p + 4 \<le> length cs" "cells out = map f [0..<p] @ drop p cs"
  shows "mm_storeu_ps out (int p) [f p, f (p + 1), f (p + 2), f (p + 3)] =
         Some (out\<lparr>cells := map f [0..<p + 4] @ drop (p + 4) cs,
                    stores := stores out @ map int [p..<p + 4]\<rparr>)"
proof -
  let ?v = "[f p, f (p + 1), f (p + 2), f (p + 3)]"
  have len: "length (cells out) = length cs" using assms by simp
  have t: "take p (cells out) = map f [0..<p]" using assms by simp
  have d: "drop (p + 4) (cells out) = drop (p + 4) cs"
    unfolding assms(2) by (simp add: add.commute)
  have u: "[0..<p + 4] = [0..<p] @ [p, p + 1, p + 2, p + 3]"
    using upt_add_eq_append[of 0 p 4] by (simp add: upt_4)
  have c: "take (nat (int p)) (cells out) @ ?v @ drop (nat (int p) + length ?v) (cells out)
         = map f [0..<p + 4] @ drop (p + 4) cs"
  proof -
    have "nat (int p) + length ?v = p + 4" by simp
    then show ?thesis unfolding u by (simp only: nat_int t d map_append list.map append_assoc)
  qed
  have s: "map (\<lambda>j. int p + int j) [0..<length ?v] = map int [p..<p + 4]"
    by (simp add: upt_4 upt_rec[of 0] upt_rec[of "Suc 0"] upt_rec[of "Suc (Suc 0)"] upt_rec[of "Suc (Suc (Suc 0))"] numeral_eq_Suc)
  have g: "0 \<le> int p \<and> int p + int (length ?v) \<le> int (length (cells out))"
    using assms(1) len by simp
  show ?thesis
    unfolding mm_storeu_ps_def vec_store_def c s using g by simp
qed

lemma sse_block_step:
  assumes "i + length kernel' + 3 \<le> length in'" "i + 4 \<le> length cs"
      and "cells out = map (lane_at in' kernel') [0..<i] @ drop i cs"
      and "kernel_reverse = map (\<lambda>i. replicate 4 (kernel' ! (length kernel' - 1 - i))) [0..<length kernel']"
  shows "(sse_simple_block in' kernel_reverse (int (length kernel')) (int i) \<bind> mm_storeu_ps out (int i)) =
         Some (out\<lparr>cells := map (lane_at in' kernel') [0..<i + 4] @ drop (i + 4) cs,
                    stores := stores out @ map int [i..<i + 4]\<rparr>)"
  unfolding sse_simple_block_def for_lt_upt
  using sse_acc_loop[OF assms(1) order_refl assms(4)] vec_store4[OF assms(2,3)]
  by (simp add: lane_at_def)

lemma sse_block_None:
  assumes "length in' < i + length kernel' + 3" "0 < length kernel'"
  shows "(sse_simple_block in' kernel_reverse (int (length kernel')) (int i) \<bind> mm_storeu_ps out (int i)) = None"
  unfolding sse_simple_block_def for_lt_upt
  using sse_acc_loop_None[OF assms] by simp

lemma sse_main_loop:
  assumes "4 * b \<le> length (cells out)" "4 * b + length kernel' \<le> length in' + 1"
      and "kernel_reverse = map (\<lambda>i. replicate 4 (kernel' ! (length kernel' - 1 - i))) [0..<length kernel']"
  shows "foldM (\<lambda>j out. sse_simple_block in' kernel_reverse (int (length kernel')) (int (4 * j)) \<bind> mm_storeu_ps out (int (4 * j))) [0..<b] out =
         Some (out\<lparr>cells := map (lane_at in' kernel') [0..<4 * b] @ drop (4 * b) (cells out),
                    stores := stores out @ map int [0..<4 * b]\<rparr>)"
  using assms(1,2)
proof (induction b)
  case 0
  show ?case by simp
next
  case (Suc b)
  then have b: "4 * b \<le> length (cells out)" "4 * b + length kernel' \<le> length in' + 1"
    "4 * b + length kernel' + 3 \<le> length in'" "4 * b + 4 \<le> length (cells out)"
    by simp_all
  let ?out = "out\<lparr>cells := map (lane_at in' kernel') [0..<4 * b] @ drop (4 * b) (cells out),
                    stores := stores out @ map int [0..<4 * b]\<rparr>"
  have c: "cells ?out = map (lane_at in' kernel') [0..<4 * b] @ drop (4 * b) (cells out)" by simp
  have e: "4 * Suc b = 4 * b + 4" by simp
  have u: "map int [0..<4 * b] @ map int [4 * b..<4 * b + 4] = map int [0..<4 * b + 4]"
    using upt_add_eq_append[of 0 "4 * b" 4] by simp
  show ?case
    unfolding foldM_snoc Suc.IH[OF b(1,2)] e
    using sse_block_step[OF b(3,4) c assms(3)] u by simp
qed

lemma sse_trips: "trips 0 (int M) 4 = (M + 3) div 4"
proof -
  have "(int M - 0 + 4 - 1) div 4 = int ((M + 3) div 4)" by (simp add: zdiv_int)
  then show ?thesis unfolding trips_def by simp
qed

lemma sse_main_for_lt:
  "for_lt 0 (int M) 4 (\<lambda>i out. sse_simple_block in' kernel_reverse kl i \<bind> mm_storeu_ps out i) out =
   foldM (\<lambda>j out. sse_simple_block in' kernel_reverse kl (int (4 * j)) \<bind> mm_storeu_ps out (int (4 * j)))
     [0..<(M + 3) div 4] out"
  by (simp add: for_lt_foldM sse_trips mult.commute)

lemma sse_kernel_reverse:
  "for_lt 0 (int (length kernel')) 1 (\<lambda>i kernel_reverse. load kernel' (int (length kernel') - i - 1) \<bind>
       (\<lambda>c. Some (kernel_reverse @ [mm_set1_ps c]))) [] =
   Some (map (\<lambda>i. replicate 4 (kernel' ! (length kernel' - 1 - i))) [0..<length kernel'])"
  unfolding for_lt_upt by (simp add: kernel_reverse_build)

lemma sse_last_cell:
  assumes "length cs = Suc M" "B = M \<or> B = Suc M"
  shows "(map f [0..<B] @ drop B cs)[M := v] = map f [0..<M] @ [v]"
proof -
  from assms(2) show ?thesis
  proof
    assume "B = M"
    moreover have "drop M cs = [cs ! M]"
      using assms(1) by (metis Cons_nth_drop_Suc drop_all lessI order_refl)
    ultimately show ?thesis by (simp add: list_update_append)
  next
    assume "B = Suc M"
    then show ?thesis using assms(1) by (simp add: list_update_append)
  qed
qed

lemma convolve_sse_simple_result:
  assumes "1 \<le> length kernel'" and "length kernel' \<le> length in'"
      and "length (cells out) = length in' - length kernel' + 1"
      and "(length in' - length kernel') mod 4 = 0 \<or> (length in' - length kernel') mod 4 = 3"
  shows "convolve_sse_simple in' out (int (length in')) kernel' (int (length kernel')) =
         Some (out\<lparr>cells := map (lane_at in' kernel') [0..<length in' - length kernel']
                         @ [conv_at in' kernel' (length in' - length kernel')],
                    stores := stores out @ map int [0..<4 * ((length in' - length kernel' + 3) div 4)]
                         @ replicate (Suc (length kernel')) (int (length in' - length kernel'))\<rparr>, 0)"
proof -
  define M where "M = length in' - length kernel'"
  define B where "B = (M + 3) div 4"
  define kr where "kr = map (\<lambda>i. replicate 4 (kernel' ! (length kernel' - 1 - i))) [0..<length kernel']"
  define out1 where "out1 = out\<lparr>cells := map (lane_at in' kernel') [0..<4 * B] @ drop (4 * B) (cells out),
                    stores := stores out @ map int [0..<4 * B]\<rparr>"
  have M: "int (length in') - int (length kernel') = int M"
    using assms(2) unfolding M_def by linarith
  have len: "length (cells out) = Suc M" using assms(3) by (simp add: M_def)
  have B4: "4 * B = M \<or> 4 * B = Suc M"
    using assms(4) unfolding B_def M_def[symmetric] by presburger
  have v: "vla_decl (int (length kernel')) = Some ()"
    using assms(1) by (cases kernel') (simp_all add: vla_decl_def)
  have b1: "4 * B \<le> length (cells out)" using B4 len by linarith
  have b2: "4 * B + length kernel' \<le> length in' + 1"
    using B4 assms(2) unfolding M_def by linarith
  have main: "for_lt 0 (int M) 4 (\<lambda>i out. sse_simple_block in' kr (int (length kernel')) i \<bind>
                 mm_storeu_ps out i) out = Some out1"
    unfolding sse_main_for_lt B_def[symmetric] out1_def
    using sse_main_loop[OF b1 b2 kr_def] .
  have t1: "M < length (cells out1)" using len B4 by (auto simp: out1_def)
  have t2: "M + length kernel' \<le> length in'" using assms(2) by (simp add: M_def)
  have l1: "length (drop (4 * B) (cells out)) = Suc M - 4 * B" using len by simp
  have c: "(cells out1)[M := conv_at in' kernel' M] =
           map (lane_at in' kernel') [0..<M] @ [conv_at in' kernel' M]"
    unfolding out1_def using sse_last_cell[OF len B4] by simp
  have tail: "(store out1 (int M) 0 \<bind>
               for_lt 0 (int (length kernel')) 1 (mac in' kernel' (int (length kernel')) (int M))) =
         Some (out1\<lparr>cells := map (lane_at in' kernel') [0..<M] @ [conv_at in' kernel' M],
                    stores := stores out1 @ replicate (Suc (length kernel')) (int M)\<rparr>)"
    unfolding naive_body[OF t1 t2] c ..
  have fin: "(let i = int M in store out1 i 0 \<bind> (\<lambda>out.
                for_lt 0 (int (length kernel')) 1 (mac in' kernel' (int (length kernel')) i) out \<bind>
                  (\<lambda>out. Some (out, 0::int)))) =
         Some (out1\<lparr>cells := map (lane_at in' kernel') [0..<M] @ [conv_at in' kernel' M],
                    stores := stores out1 @ replicate (Suc (length kernel')) (int M)\<rparr>, 0)"
    unfolding Let_def Option.bind_assoc[symmetric] tail by simp
  have "convolve_sse_simple in' out (int (length in')) kernel' (int (length kernel')) =
         Some (out1\<lparr>cells := map (lane_at in' kernel') [0..<M] @ [conv_at in' kernel' M],
                    stores := stores out1 @ replicate (Suc (length kernel')) (int M)\<rparr>, 0)"
    unfolding convolve_sse_simple_def v sse_kernel_reverse M kr_def[symmetric] Option.bind.simps
      main fin ..
  then show ?thesis
    unfolding M_def[symmetric] B_def[symmetric] by (simp add: out1_def)
qed

lemma convolve_sse_simple_overrun:
  assumes "1 \<le> length kernel'" and "length kernel' \<le> length in'"
      and "(length in' - length kernel') mod 4 = 1 \<or> (length in' - length kernel') mod 4 = 2"
  shows "convolve_sse_simple in' out (int (length in')) kernel' (int (length kernel')) = None"
proof -
  define M where "M = length in' - length kernel'"
  define kr where "kr = map (\<lambda>i. replicate 4 (kernel' ! (length kernel' - 1 - i))) [0..<length kernel']"
  have M: "int (length in') - int (length kernel') = int M"
    using assms(2) unfolding M_def by linarith
  have v: "vla_decl (int (length kernel')) = Some ()"
    using assms(1) by (cases kernel') (simp_all add: vla_decl_def)
  obtain b where b: "(M + 3) div 4 = Suc b" "M < 4 * b + 3"
  proof -
    have "0 < (M + 3) div 4" using assms(3) unfolding M_def[symmetric] by presburger
    then obtain b where "(M + 3) div 4 = Suc b" by (cases "(M + 3) div 4") auto
    moreover from this have "M < 4 * b + 3" using assms(3) unfolding M_def[symmetric] by presburger
    ultimately show ?thesis using that by blast
  qed
  have "length in' < 4 * b + length kernel' + 3" using b(2) assms(2) unfolding M_def by linarith
  moreover have "0 < length kernel'" using assms(1) by linarith
  ultimately have blk: "(sse_simple_block in' kr (int (length kernel')) (int (4 * b)) \<bind>
                    mm_storeu_ps s (int (4 * b))) = None" for s :: "'a mem"
    by (rule sse_block_None)
  have main: "for_lt 0 (int M) 4 (\<lambda>i out. sse_simple_block in' kr (int (length kernel')) i \<bind>
                 mm_storeu_ps out i) out = None"
    unfolding sse_main_for_lt b(1) foldM_snoc using blk by (simp split: option.splits)
  show ?thesis
    unfolding convolve_sse_simple_def v sse_kernel_reverse M kr_def[symmetric] Option.bind.simps
      main ..
qed

lemma lane_part_conv_part:
  fixes in' kernel' :: "'a::{zero,plus,times} list"
  assumes "\<forall>x y :: 'a. x * y = y * x"
  shows "lane_part in' kernel' m i = conv_part in' kernel' m i"
proof (induction m)
  case 0
  show ?case by (simp add: lane_part_def conv_part_def)
next
  case (Suc m)
  have "kernel' ! (length kernel' - 1 - m) * in' ! (i + m) = in' ! (i + m) * kernel' ! (length kernel' - 1 - m)"
    using assms by blast
  then show ?case
    unfolding lane_part_Suc conv_part_Suc Suc.IH by simp
qed

lemma lane_at_conv_at:
  fixes in' kernel' :: "'a::{zero,plus,times} list"
  assumes "\<forall>x y :: 'a. x * y = y * x"
  shows "lane_at in' kernel' = conv_at in' kernel'"
  by (simp add: fun_eq_iff lane_at_def conv_at_def lane_part_conv_part[OF assms])

text \<open>
  Claim C3, as the code has it. For \<open>1 \<le> K \<le> N\<close> and buffers of \<open>N\<close>, \<open>K\<close> and
  \<open>N - K + 1\<close> elements: every access of \<open>convolve_naive\<close> and of
  \<open>convolve_reversed_naive\<close> is inside its buffer, and every access of
  \<open>convolve_sse_simple\<close> is inside its buffer exactly when \<open>(N - K) mod 4\<close> is 0 or 3.
  (In this model a call returns something other than \<open>None\<close> exactly when none of its
  accesses leaves a buffer.)
\<close>

theorem in_bounds_domain:
  fixes in' kernel' :: "'a::{zero,plus,times} list"
  assumes "1 \<le> length kernel'" and "length kernel' \<le> length in'"
      and "length (cells out) = length in' - length kernel' + 1"
  shows "convolve_naive in' out (int (length in')) kernel' (int (length kernel')) \<noteq> None
       \<and> convolve_reversed_naive in' out (int (length in')) kernel' (int (length kernel')) \<noteq> None
       \<and> (convolve_sse_simple in' out (int (length in')) kernel' (int (length kernel')) \<noteq> None
            \<longleftrightarrow> (length in' - length kernel') mod 4 = 0 \<or> (length in' - length kernel') mod 4 = 3)"
proof (intro conjI iffI)
  show "convolve_naive in' out (int (length in')) kernel' (int (length kernel')) \<noteq> None"
    unfolding convolve_naive_result[OF assms(2,3)] by (rule option.distinct(2))
  show "convolve_reversed_naive in' out (int (length in')) kernel' (int (length kernel')) \<noteq> None"
    unfolding convolve_reversed_naive_result[OF assms(2,3)] by (rule option.distinct(2))
next
  assume m: "(length in' - length kernel') mod 4 = 0 \<or> (length in' - length kernel') mod 4 = 3"
  show "convolve_sse_simple in' out (int (length in')) kernel' (int (length kernel')) \<noteq> None"
    unfolding convolve_sse_simple_result[OF assms m] by (rule option.distinct(2))
next
  assume d: "convolve_sse_simple in' out (int (length in')) kernel' (int (length kernel')) \<noteq> None"
  show "(length in' - length kernel') mod 4 = 0 \<or> (length in' - length kernel') mod 4 = 3"
  proof (rule ccontr)
    have "M mod 4 = 0 \<or> M mod 4 = 3 \<or> M mod 4 = 1 \<or> M mod 4 = 2" for M :: nat
      by presburger
    moreover assume "\<not> ((length in' - length kernel') mod 4 = 0 \<or> (length in' - length kernel') mod 4 = 3)"
    ultimately have "(length in' - length kernel') mod 4 = 1 \<or> (length in' - length kernel') mod 4 = 2"
      by blast
    from convolve_sse_simple_overrun[OF assms(1,2) this, of out] d show False by simp
  qed
qed

theorem in_bounds_domain_witness:
  "1 \<le> length [1, 1, 1, 1 :: int] \<and> length [1, 1, 1, 1 :: int] \<le> length [1, 2, 3, 4, 5 :: int]
   \<and> convolve_naive [1, 2, 3, 4, 5 :: int] \<lparr>cells = [0, 0], stores = []\<rparr> 5 [1, 1, 1, 1] 4 \<noteq> None
   \<and> convolve_reversed_naive [1, 2, 3, 4, 5 :: int] \<lparr>cells = [0, 0], stores = []\<rparr> 5 [1, 1, 1, 1] 4 \<noteq> None
   \<and> convolve_sse_simple [1, 2, 3, 4, 5 :: int] \<lparr>cells = [0, 0], stores = []\<rparr> 5 [1, 1, 1, 1] 4 = None
   \<and> convolve_sse_simple [1, 2, 3, 4, 5, 6, 7, 8 :: int] \<lparr>cells = [0, 0, 0, 0, 0], stores = []\<rparr> 8
         [1, 1, 1, 1] 4 \<noteq> None"
  using in_bounds_domain [of "[1, 1, 1, 1 :: int]" "[1, 2, 3, 4, 5]" "\<lparr>cells = [0, 0], stores = []\<rparr>"]
        in_bounds_domain [of "[1, 1, 1, 1 :: int]" "[1, 2, 3, 4, 5, 6, 7, 8]"
          "\<lparr>cells = [0, 0, 0, 0, 0], stores = []\<rparr>"]
  by (simp del: not_None_eq)

text \<open>
  The claim as stated, for every \<open>N\<close> and \<open>K\<close>, fails: for \<open>N = 5\<close>, \<open>K = 4\<close> the round
  \<open>i = 0\<close> of the vector loop loads \<open>in[2..5]\<close> from a signal of five samples and would
  store \<open>out[0..3]\<close> into a buffer of two cells. For \<open>N = 8\<close> the same routine stays
  inside its buffers.
\<close>

theorem sse_simple_overrun_5_4:
  "convolve_sse_simple [1, 2, 3, 4, 5 :: int] \<lparr>cells = [0, 0], stores = []\<rparr> 5 [1, 1, 1, 1] 4 = None
   \<and> mm_loadu_ps [1, 2, 3, 4, 5 :: int] (0 + 2) = None
   \<and> mm_storeu_ps \<lparr>cells = [0, 0 :: int], stores = []\<rparr> 0 [10, 14, 0, 0] = None
   \<and> convolve_sse_simple [1, 2, 3, 4, 5, 6, 7, 8 :: int] \<lparr>cells = [0, 0, 0, 0, 0], stores = []\<rparr> 8
         [1, 1, 1, 1] 4
       = Some (\<lparr>cells = [10, 14, 18, 22, 26], stores = [0, 1, 2, 3, 4, 4, 4, 4, 4]\<rparr>, 0)"
  by code_simp

text \<open>
  Claim C2, as the code has it. For every valid input \<open>convolve_reversed_naive\<close> leaves
  exactly the values of \<open>convolve_naive\<close> in the output buffer: it performs the same
  additions and multiplications in the same order for every cell, so no law of
  arithmetic is involved. \<open>convolve_sse_simple\<close> multiplies with the factors exchanged
  (coefficient times sample); where multiplication is commutative and \<open>(N - K) mod 4\<close> is
  0 or 3 it leaves the values of \<open>convolve_naive\<close> as well.
\<close>

theorem variants_agree_with_naive:
  fixes in' kernel' :: "'a::{zero,plus,times} list"
  assumes "1 \<le> length kernel'" and "length kernel' \<le> length in'"
      and "length (cells out) = length in' - length kernel' + 1"
  shows "\<exists>o1 o2.
           convolve_naive in' out (int (length in')) kernel' (int (length kernel')) = Some (o1, 0)
         \<and> convolve_reversed_naive in' out (int (length in')) kernel' (int (length kernel')) = Some (o2, 0)
         \<and> cells o2 = cells o1
         \<and> ((\<forall>x y :: 'a. x * y = y * x)
              \<and> ((length in' - length kernel') mod 4 = 0 \<or> (length in' - length kernel') mod 4 = 3)
            \<longrightarrow> (\<exists>o3. convolve_sse_simple in' out (int (length in')) kernel' (int (length kernel'))
                        = Some (o3, 0)
                      \<and> cells o3 = cells o1))"
proof -
  have u: "map f [0..<M] @ [f M] = map f [0..<M + 1]" for f :: "nat \<Rightarrow> 'a" and M
    by simp
  have "\<exists>o3. convolve_sse_simple in' out (int (length in')) kernel' (int (length kernel')) = Some (o3, 0)
          \<and> cells o3 = map (conv_at in' kernel') [0..<length in' - length kernel' + 1]"
    if c: "\<forall>x y :: 'a. x * y = y * x"
      and m: "(length in' - length kernel') mod 4 = 0 \<or> (length in' - length kernel') mod 4 = 3"
    unfolding convolve_sse_simple_result[OF assms m] lane_at_conv_at[OF c]
    by (simp del: upt_Suc add: u)
  then show ?thesis
    unfolding convolve_naive_result[OF assms(2,3)] convolve_reversed_naive_result[OF assms(2,3)]
    by (simp del: upt_Suc)
qed

theorem variants_agree_with_naive_witness:
  "1 \<le> length [1, 2, 3, 4 :: int] \<and> length [1, 2, 3, 4 :: int] \<le> length [1, 2, 3, 4, 5, 6, 7, 8 :: int]
   \<and> (\<forall>x y :: int. x * y = y * x) \<and> (8 - 4) mod 4 = (0 :: nat)
   \<and> (\<exists>o1 o2 o3.
           convolve_naive [1, 2, 3, 4, 5, 6, 7, 8 :: int] \<lparr>cells = [0, 0, 0, 0, 0], stores = []\<rparr> 8
             [1, 2, 3, 4] 4 = Some (o1, 0)
         \<and> convolve_reversed_naive [1, 2, 3, 4, 5, 6, 7, 8 :: int] \<lparr>cells = [0, 0, 0, 0, 0], stores = []\<rparr> 8
             [1, 2, 3, 4] 4 = Some (o2, 0)
         \<and> convolve_sse_simple [1, 2, 3, 4, 5, 6, 7, 8 :: int] \<lparr>cells = [0, 0, 0, 0, 0], stores = []\<rparr> 8
             [1, 2, 3, 4] 4 = Some (o3, 0)
         \<and> cells o2 = cells o1 \<and> cells o3 = cells o1)"
  using variants_agree_with_naive [of "[1, 2, 3, 4 :: int]" "[1, 2, 3, 4, 5, 6, 7, 8]"
          "\<lparr>cells = [0, 0, 0, 0, 0], stores = []\<rparr>"]
  by (auto simp: mult.commute)

text \<open>
  The claim as stated fails: \<open>convolve_avx_unrolled_vector\<close> with a kernel of 8
  coefficients (a multiple of its lane width) reads \<open>kernel[15]\<close>, since it uses the
  constant \<open>KERNEL_LENGTH = 16\<close>; and \<open>convolve_sse_simple\<close> for \<open>N = 6\<close>, \<open>K = 4\<close>
  leaves its buffers in the vector loop. The reference routine returns in both cases.
\<close>

theorem variants_agree_counterexample:
  "convolve_avx_unrolled_vector (replicate 24 (1 :: int)) \<lparr>cells = replicate 17 0, stores = []\<rparr> 24
     (replicate 8 1) 8 = None
   \<and> map_option (cells \<circ> fst)
        (convolve_naive (replicate 24 (1 :: int)) \<lparr>cells = replicate 17 0, stores = []\<rparr> 24
           (replicate 8 1) 8)
       = Some (replicate 17 8)
   \<and> convolve_sse_simple [1, 2, 3, 4, 5, 6 :: int] \<lparr>cells = [0, 0, 0], stores = []\<rparr> 6 [1, 2, 3, 4] 4 = None
   \<and> convolve_naive [1, 2, 3, 4, 5, 6 :: int] \<lparr>cells = [0, 0, 0], stores = []\<rparr> 6 [1, 2, 3, 4] 4
       = Some (\<lparr>cells = [20, 30, 40], stores = [0, 0, 0, 0, 0, 1, 1, 1, 1, 1, 2, 2, 2, 2, 2]\<rparr>, 0)"
  by code_simp

section \<open>The last sample of the vector routines\<close>

text \<open>
  A loop whose every round is defined and keeps a property of the state is defined, and
  the property holds at its end.
\<close>

lemma foldM_invariant:
  assumes "P s" and "\<And>x s. x \<in> set xs \<Longrightarrow> P s \<Longrightarrow> \<exists>s'. f x s = Some s' \<and> P s'"
  shows "\<exists>s'. foldM f xs s = Some s' \<and> P s'"
  using assms
proof (induction xs arbitrary: s)
  case Nil
  then show ?case by simp
next
  case (Cons x xs)
  from Cons.prems(2)[of x s] Cons.prems(1) obtain s1 where s1: "f x s = Some s1" "P s1" by auto
  from Cons.IH[OF s1(2)] Cons.prems(2) obtain s' where "foldM f xs s1 = Some s'" "P s'"
    by (metis list.set_intros(2))
  with s1 show ?case by simp
qed

lemma for_lt_invariant:
  assumes "0 < step" and "P s"
      and "\<And>j s. j < trips i n step \<Longrightarrow> P s \<Longrightarrow> \<exists>s'. body (i + int j * step) s = Some s' \<and> P s'"
  shows "\<exists>s'. for_lt i n step body s = Some s' \<and> P s'"
  unfolding for_lt_foldM[OF assms(1)]
  by (rule foldM_invariant[where P = P, OF assms(2)]) (simp add: assms(3))

lemma broadcast_kernel_rounds:
  "m \<le> 16 \<Longrightarrow> 16 \<le> length kernel' \<Longrightarrow>
   foldM (\<lambda>i kernel_reverse. mm256_broadcast_ss kernel' (KERNEL_LENGTH - int i - 1) \<bind>
            (\<lambda>v. Some (kernel_reverse @ [v]))) [0..<m] [] =
   Some (map (\<lambda>i. replicate 8 (kernel' ! (15 - i))) [0..<m])"
proof (induction m)
  case 0
  show ?case by simp
next
  case (Suc m)
  then have m: "m \<le> 16" "m < 16" by simp_all
  have "KERNEL_LENGTH - int m - 1 = int (15 - m)" using m(2) by (simp add: KERNEL_LENGTH_def)
  moreover have "15 - m < length kernel'" using Suc.prems(2) by linarith
  ultimately have l: "mm256_broadcast_ss kernel' (KERNEL_LENGTH - int m - 1) = Some (replicate 8 (kernel' ! (15 - m)))"
    by (simp add: mm256_broadcast_ss_def load_nat)
  show ?case
    unfolding foldM_snoc Suc.IH[OF m(1) Suc.prems(2)] by (simp add: l)
qed

lemma broadcast_kernel_result:
  "16 \<le> length kernel' \<Longrightarrow>
   broadcast_kernel kernel' = Some (map (\<lambda>i. replicate 8 (kernel' ! (15 - i))) [0..<16])"
  unfolding broadcast_kernel_def for_lt_upt
  using broadcast_kernel_rounds[of 16 kernel'] by (simp add: KERNEL_LENGTH_def)

lemma memcpy_row_nat:
  "l \<le> length in' \<Longrightarrow> memcpy_row in' (int (length in')) (int l) = Some (drop l in')"
  by (simp add: memcpy_row_def)

lemma fill_in_aligned_rounds:
  "r \<le> Suc (length in') \<Longrightarrow>
   foldM (\<lambda>i in_aligned. memcpy_row in' (int (length in')) (int i) \<bind>
            (\<lambda>row. Some (in_aligned @ [row]))) [0..<r] [] =
   Some (map (\<lambda>l. drop l in') [0..<r])"
proof (induction r)
  case 0
  show ?case by simp
next
  case (Suc r)
  then have r: "r \<le> Suc (length in')" "r \<le> length in'" by simp_all
  show ?case
    unfolding foldM_snoc Suc.IH[OF r(1)] by (simp add: memcpy_row_nat[OF r(2)])
qed

lemma fill_in_aligned_result:
  "r \<le> Suc (length in') \<Longrightarrow>
   fill_in_aligned in' (int (length in')) (int r) = Some (map (\<lambda>l. drop l in') [0..<r])"
  unfolding fill_in_aligned_def for_lt_upt by (simp add: fill_in_aligned_rounds)

text \<open>
  One block of \<open>convolve_avx_unrolled_vector\<close> at output index \<open>i\<close> loads the samples up
  to \<open>in[i + 30]\<close> (row 3, offset \<open>i + 12 + 8\<close>, 8 lanes) and stores \<open>out[i], ...,
  out[i + 15]\<close>: it is defined when \<open>i + 31 \<le> N\<close>.
\<close>

lemma trips_consts:
  "trips 0 16 16 = 1" "trips 0 4 1 = 4" "trips 0 16 4 = 4" "trips 0 8 1 = 8" "trips 0 16 8 = 2"
  "trips 0 4 4 = 1"
  by (simp_all add: trips_def)

lemma load_int:
  "0 \<le> p \<Longrightarrow> p < int (length xs) \<Longrightarrow> load xs p = Some (xs ! nat p)"
  by (simp add: load_def)

lemma vec_load_int:
  "0 \<le> p \<Longrightarrow> p + int w \<le> int (length xs) \<Longrightarrow>
   \<exists>v. vec_load w xs p = Some v \<and> length v = w"
  by (auto simp: vec_load_def)

lemma avx_step:
  fixes row kr1 kr2 :: "'a::{zero,plus,times} list"
  assumes "lanes8 (acc0, acc1)" "length kr1 = 8" "length kr2 = 8"
      and "0 \<le> p" "p + 8 \<le> int (length row)" "0 \<le> q" "q + 8 \<le> int (length row)"
  shows "\<exists>s'. (mm256_loadu_ps row p \<bind> (\<lambda>data_block.
            let prod = mm256_mul_ps kr1 data_block; acc0 = mm256_add_ps acc0 prod in
            mm256_loadu_ps row q \<bind> (\<lambda>data_block.
              let prod = mm256_mul_ps kr2 data_block; acc1 = mm256_add_ps acc1 prod in
              Some (acc0, acc1)))) = Some s' \<and> lanes8 s'"
proof -
  from vec_load_int[of p 8 row] assms obtain v where v: "vec_load 8 row p = Some v" "length v = 8"
    by auto
  from vec_load_int[of q 8 row] assms obtain w where w: "vec_load 8 row q = Some w" "length w = 8"
    by auto
  show ?thesis
    using assms(1-3) v w
    by (simp add: mm256_loadu_ps_def mm256_mul_ps_def mm256_add_ps_def lanes8_def Let_def)
qed

lemma avx_unrolled_vector_block_defined:
  fixes in_aligned kernel_reverse :: "'a::{zero,plus,times} list list"
  assumes kr: "length kernel_reverse = 16" "\<forall>v\<in>set kernel_reverse. length v = 8"
      and rows: "4 \<le> length in_aligned" "\<forall>l<4. length (in_aligned ! l) = N - l"
      and i: "i + 31 \<le> N"
  shows "\<exists>accs. avx_unrolled_vector_block in_aligned kernel_reverse (int i) = Some accs \<and> lanes8 accs"
  unfolding avx_unrolled_vector_block_def KERNEL_LENGTH_def VECTOR_LENGTH_def SSE_SIMD_LENGTH_def
    AVX_SIMD_LENGTH_def Let_def
  apply (rule for_lt_invariant[where P = lanes8])
    apply simp
   apply (simp add: lanes8_def mm256_setzero_ps_def)
  apply (rule for_lt_invariant[where P = lanes8])
    apply simp
   apply assumption
  apply (rule for_lt_invariant[where P = lanes8])
    apply simp
   apply assumption
  subgoal premises prems for jk s0 jl s1 jm s
  proof -
    obtain acc0 acc1 where s: "s = (acc0, acc1)" by (cases s)
    have jk: "jk = 0" and jl: "jl < 4" and jm: "jm < 4" using prems by (simp_all add: trips_consts)
    have r: "load in_aligned (0 + int jl * 1) = Some (in_aligned ! jl)"
      using rows(1) jl by (simp add: load_def)
    have rl: "length (in_aligned ! jl) = N - jl" using rows(2) jl by simp
    have kl: "0 \<le> 0 + int jk * 16 + (0 + int jl * 1) + (0 + int jm * 4)"
             "0 + int jk * 16 + (0 + int jl * 1) + (0 + int jm * 4) < int (length kernel_reverse)"
      using jk jl jm kr(1) by simp_all
    have "nat (0 + int jk * 16 + (0 + int jl * 1) + (0 + int jm * 4)) < length kernel_reverse"
      using kl by linarith
    hence k8: "length (kernel_reverse ! nat (0 + int jk * 16 + (0 + int jl * 1) + (0 + int jm * 4))) = 8"
      using kr(2) nth_mem by blast
    have b: "0 \<le> int i + (0 + int jk * 16) + (0 + int jm * 4)"
            "int i + (0 + int jk * 16) + (0 + int jm * 4) + 8 \<le> int (length (in_aligned ! jl))"
            "0 \<le> int i + (0 + int jk * 16) + (0 + int jm * 4) + 8"
            "int i + (0 + int jk * 16) + (0 + int jm * 4) + 8 + 8 \<le> int (length (in_aligned ! jl))"
      using jk jl jm i rl by simp_all
    show ?thesis
      unfolding s prod.case r load_int[OF kl] Option.bind.simps
      using avx_step[OF _ k8 k8 b] prems(6)[unfolded s]
      by (simp add: Let_def)
  qed
  done

text \<open>
  The blocks start at the multiples of 16 below \<open>N - 16\<close>. When \<open>(N - 16) mod 16\<close> is 0 or
  15 the last of them ends at \<open>out[N - 17]\<close> or at \<open>out[N - 16]\<close>, and the scalar code for
  the last sample runs as in \<open>convolve_naive\<close>.
\<close>

lemma vec_store_length:
  assumes "0 \<le> p" "p + int (length v) \<le> int (length (cells m))"
  shows "\<exists>m'. vec_store m p v = Some m' \<and> length (cells m') = length (cells m)"
  using assms by (auto simp: vec_store_def)

lemma block_bound_nat:
  fixes M j :: nat
  assumes "M mod 16 = 0 \<or> M mod 16 = 15" "j < (M + 15) div 16"
  shows "16 * j + 15 \<le> M"
proof -
  define q where "q = M div 16"
  have M: "M = 16 * q + M mod 16" by (simp add: q_def)
  from assms(1) show ?thesis
  proof
    assume "M mod 16 = 0"
    then have m: "M = 16 * q" using M by simp
    have "(16 * q + 15) div 16 = q" by simp
    with assms(2) m have "j < q" by simp
    then show ?thesis using m by simp
  next
    assume "M mod 16 = 15"
    then have m: "M = 16 * q + 15" using M by simp
    have "(16 * q + 15 + 15) div 16 = q + 1" by simp
    with assms(2) m have "j < q + 1" by simp
    then show ?thesis using m by simp
  qed
qed

lemma avx_block_bound:
  assumes "16 \<le> N" "(N - 16) mod 16 = 0 \<or> (N - 16) mod 16 = 15"
      and "j < trips 0 (int N - 16) 16"
  shows "16 * j + 31 \<le> N"
proof -
  define M where "M = N - 16"
  have M: "N = M + 16" using assms(1) by (simp add: M_def)
  have "int N - 16 - 0 + 16 - 1 = int (M + 15)" by (simp add: M)
  then have "trips 0 (int N - 16) 16 = nat (int (M + 15) div int 16)"
    unfolding trips_def by simp
  then have t: "trips 0 (int N - 16) 16 = (M + 15) div 16"
    unfolding zdiv_int[symmetric] nat_int .
  have "M mod 16 = 0 \<or> M mod 16 = 15" using assms(2) by (simp add: M)
  moreover have "j < (M + 15) div 16" using assms(3) t by simp
  ultimately have "16 * j + 15 \<le> M" by (rule block_bound_nat)
  then show ?thesis by (simp add: M)
qed

lemma avx_unrolled_vector_main_loop:
  fixes in_aligned kernel_reverse :: "'a::{zero,plus,times} list list"
  assumes kr: "length kernel_reverse = 16" "\<forall>v\<in>set kernel_reverse. length v = 8"
      and rows: "4 \<le> length in_aligned" "\<forall>l<4. length (in_aligned ! l) = N - l"
      and N: "16 \<le> N" "(N - 16) mod 16 = 0 \<or> (N - 16) mod 16 = 15"
      and out: "length (cells out) = N - 15"
  shows "\<exists>out'. for_lt 0 (int N - KERNEL_LENGTH) VECTOR_LENGTH (\<lambda>i out. do {
             (acc0, acc1) \<leftarrow> avx_unrolled_vector_block in_aligned kernel_reverse i;
             out \<leftarrow> mm256_storeu_ps out i acc0;
             mm256_storeu_ps out (i + AVX_SIMD_LENGTH) acc1
           }) out = Some out' \<and> length (cells out') = N - 15"
  unfolding KERNEL_LENGTH_def VECTOR_LENGTH_def AVX_SIMD_LENGTH_def
  apply (rule for_lt_invariant[where P = "\<lambda>out. length (cells out) = N - 15"])
    apply simp
   apply (rule out)
  subgoal premises prems for j s
  proof -
    have b: "16 * j + 31 \<le> N" using avx_block_bound[OF N prems(1)] .
    from avx_unrolled_vector_block_defined[OF kr rows b]
    obtain acc0 acc1 where blk: "avx_unrolled_vector_block in_aligned kernel_reverse (int (16 * j)) = Some (acc0, acc1)"
      and l: "length acc0 = 8" "length acc1 = 8"
      by (auto simp: lanes8_def)
    have i: "0 + int j * 16 = int (16 * j)" by simp
    from vec_store_length[of "int (16 * j)" acc0 s] b l prems(2)
    obtain s1 where s1: "vec_store s (int (16 * j)) acc0 = Some s1" "length (cells s1) = N - 15"
      by auto
    from vec_store_length[of "int (16 * j) + 8" acc1 s1] b l s1(2)
    obtain s2 where s2: "vec_store s1 (int (16 * j) + 8) acc1 = Some s2" "length (cells s2) = N - 15"
      by auto
    show ?thesis
      unfolding i blk mm256_storeu_ps_def using s1 s2 by simp
  qed
  done

lemma convolve_avx_unrolled_vector_last_sample:
  fixes in' kernel' :: "'a::{zero,plus,times} list"
  assumes k: "length kernel' = 16" and N: "16 \<le> length in'"
      and out: "length (cells out) = length in' - 15"
      and r: "(length in' - 16) mod 16 = 0 \<or> (length in' - 16) mod 16 = 15"
  shows "\<exists>out'. convolve_avx_unrolled_vector in' out (int (length in')) kernel' kernel_length = Some (out', 0)
           \<and> length (cells out') = length in' - 15
           \<and> cells out' ! (length in' - 16) = conv_at in' kernel' (length in' - 16)"
proof -
  let ?N = "length in'"
  let ?kr = "map (\<lambda>i. replicate 8 (kernel' ! (15 - i))) [0..<16]"
  let ?rows = "map (\<lambda>l. drop l in') [0..<4]"
  have v: "vla_decl (int ?N) = Some ()" using N by (cases in') (simp_all add: vla_decl_def)
  have bk: "broadcast_kernel kernel' = Some ?kr" using broadcast_kernel_result[of kernel'] k by simp
  have fa: "fill_in_aligned in' (int ?N) SSE_SIMD_LENGTH = Some ?rows"
    using fill_in_aligned_result[of 4 in'] N by (simp add: SSE_SIMD_LENGTH_def)
  have kr: "length ?kr = 16" "\<forall>v\<in>set ?kr. length v = 8" by simp_all
  have rows: "4 \<le> length ?rows" "\<forall>l<4. length (?rows ! l) = ?N - l" by simp_all
  from avx_unrolled_vector_main_loop[OF kr rows N r out]
  obtain o1 where o1: "for_lt 0 (int ?N - KERNEL_LENGTH) VECTOR_LENGTH (\<lambda>i out. do {
             (acc0, acc1) \<leftarrow> avx_unrolled_vector_block ?rows ?kr i;
             out \<leftarrow> mm256_storeu_ps out i acc0;
             mm256_storeu_ps out (i + AVX_SIMD_LENGTH) acc1
           }) out = Some o1" and l1: "length (cells o1) = ?N - 15"
    by blast
  have r0: "load ?rows 0 = Some in'" by (simp add: load_def upt_rec numeral_nat)
  have M: "int ?N - KERNEL_LENGTH = int (?N - 16)" using N by (simp add: KERNEL_LENGTH_def)
  have K: "KERNEL_LENGTH = int (length kernel')" by (simp add: KERNEL_LENGTH_def k)
  have ls: "last_sample in' kernel' (int (?N - 16)) o1 =
        Some (o1\<lparr>cells := (cells o1)[?N - 16 := conv_at in' kernel' (?N - 16)],
                 stores := stores o1 @ replicate (Suc (length kernel')) (int (?N - 16))\<rparr>)"
    unfolding last_sample_def K
    using naive_body[of "?N - 16" o1 kernel' in'] l1 N k by simp
  show ?thesis
    unfolding convolve_avx_unrolled_vector_def v bk fa Option.bind.simps o1 r0 ls[unfolded M[symmetric]]
    using l1 N by simp
qed

text \<open>
  Claim C4, as the code has it. Where the vector loop stays inside the buffers, the last
  output sample \<open>out[N-K]\<close> of a vector routine is the value the reference routine
  computes for that index, exactly: it is produced by the same scalar statements in the
  same order, and no law of arithmetic is needed. For \<open>convolve_sse_simple\<close> the vector
  loop stays inside the buffers when \<open>(N - K) mod 4\<close> is 0 or 3, for
  \<open>convolve_avx_unrolled_vector\<close> when \<open>K = 16\<close> and \<open>(N - K) mod 16\<close> is 0 or 15.
\<close>

theorem vector_last_sample_exact:
  fixes in' kernel' :: "'a::{zero,plus,times} list"
  assumes "1 \<le> length kernel'" and "length kernel' \<le> length in'"
      and "length (cells out) = length in' - length kernel' + 1"
  shows "\<exists>o1.
           convolve_naive in' out (int (length in')) kernel' (int (length kernel')) = Some (o1, 0)
         \<and> cells o1 ! (length in' - length kernel') =
             foldl (\<lambda>acc k. acc + in' ! (length in' - length kernel' + k) * kernel' ! (length kernel' - 1 - k))
               0 [0..<length kernel']
         \<and> ((length in' - length kernel') mod 4 = 0 \<or> (length in' - length kernel') mod 4 = 3 \<longrightarrow>
              (\<exists>o3. convolve_sse_simple in' out (int (length in')) kernel' (int (length kernel')) = Some (o3, 0)
                  \<and> cells o3 ! (length in' - length kernel') = cells o1 ! (length in' - length kernel')))
         \<and> (length kernel' = 16
              \<and> ((length in' - length kernel') mod 16 = 0 \<or> (length in' - length kernel') mod 16 = 15) \<longrightarrow>
              (\<exists>o7. convolve_avx_unrolled_vector in' out (int (length in')) kernel' (int (length kernel')) = Some (o7, 0)
                  \<and> cells o7 ! (length in' - length kernel') = cells o1 ! (length in' - length kernel')))"
proof -
  let ?M = "length in' - length kernel'"
  let ?o1 = "out\<lparr>cells := map (conv_at in' kernel') [0..<?M + 1],
                  stores := stores out @ concat (map (\<lambda>j. replicate (Suc (length kernel')) (int j))
                                [0..<?M + 1])\<rparr>"
  have b: "map f [0..<M + 1] ! M = f M" for f :: "nat \<Rightarrow> 'a" and M
    using nth_map_upt[of M "M + 1" 0 f] by simp
  have n: "convolve_naive in' out (int (length in')) kernel' (int (length kernel')) = Some (?o1, 0)"
    by (rule convolve_naive_result[OF assms(2,3)])
  have c: "cells ?o1 ! ?M = conv_at in' kernel' ?M"
    by (simp del: upt_Suc add: b)
  have f: "conv_at in' kernel' ?M =
             foldl (\<lambda>acc k. acc + in' ! (?M + k) * kernel' ! (length kernel' - 1 - k)) 0 [0..<length kernel']"
    by (simp add: conv_at_def conv_part_def)
  have s: "\<exists>o3. convolve_sse_simple in' out (int (length in')) kernel' (int (length kernel')) = Some (o3, 0)
                  \<and> cells o3 ! ?M = cells ?o1 ! ?M"
    if "?M mod 4 = 0 \<or> ?M mod 4 = 3"
    unfolding convolve_sse_simple_result[OF assms that] c
    by (simp add: nth_append)
  have a: "\<exists>o7. convolve_avx_unrolled_vector in' out (int (length in')) kernel' (int (length kernel')) = Some (o7, 0)
                  \<and> cells o7 ! ?M = cells ?o1 ! ?M"
    if k: "length kernel' = 16" and r: "?M mod 16 = 0 \<or> ?M mod 16 = 15"
  proof -
    have N: "16 \<le> length in'" using assms(2) k by simp
    have o: "length (cells out) = length in' - 15" using assms(2,3) k by simp
    from convolve_avx_unrolled_vector_last_sample[OF k N o r[unfolded k], of "int (length kernel')"]
    obtain o7 where o7:
      "convolve_avx_unrolled_vector in' out (int (length in')) kernel' (int (length kernel')) = Some (o7, 0)"
      "cells o7 ! (length in' - 16) = conv_at in' kernel' (length in' - 16)"
      by blast
    have "cells o7 ! ?M = cells ?o1 ! ?M" unfolding c using o7(2) k by simp
    with o7(1) show ?thesis by blast
  qed
  have cf: "cells ?o1 ! ?M =
             foldl (\<lambda>acc k. acc + in' ! (?M + k) * kernel' ! (length kernel' - 1 - k)) 0 [0..<length kernel']"
    unfolding c by (rule f)
  from n cf s a show ?thesis by blast
qed

theorem vector_last_sample_exact_witness:
  "1 \<le> length [1, 2, 3, 4, 5, 6, 7, 8, 9, 10, 11, 12, 13, 14, 15, 16 :: int]
   \<and> length [1, 2, 3, 4, 5, 6, 7, 8, 9, 10, 11, 12, 13, 14, 15, 16 :: int]
       \<le> length [1, 2, 3, 4, 5, 6, 7, 8, 9, 10, 11, 12, 13, 14, 15, 16,
                17, 18, 19, 20, 21, 22, 23, 24, 25, 26, 27, 28, 29, 30, 31, 32 :: int]
   \<and> (32 - 16) mod 4 = (0 :: nat) \<and> (32 - 16) mod 16 = (0 :: nat)
   \<and> (\<exists>o1 o3 o7.
           convolve_naive
             [1, 2, 3, 4, 5, 6, 7, 8, 9, 10, 11, 12, 13, 14, 15, 16,
              17, 18, 19, 20, 21, 22, 23, 24, 25, 26, 27, 28, 29, 30, 31, 32 :: int]
             \<lparr>cells = replicate 17 0, stores = []\<rparr> 32
             [1, 2, 3, 4, 5, 6, 7, 8, 9, 10, 11, 12, 13, 14, 15, 16 :: int] 16 = Some (o1, 0)
         \<and> convolve_sse_simple
             [1, 2, 3, 4, 5, 6, 7, 8, 9, 10, 11, 12, 13, 14, 15, 16,
              17, 18, 19, 20, 21, 22, 23, 24, 25, 26, 27, 28, 29, 30, 31, 32 :: int]
             \<lparr>cells = replicate 17 0, stores = []\<rparr> 32
             [1, 2, 3, 4, 5, 6, 7, 8, 9, 10, 11, 12, 13, 14, 15, 16 :: int] 16 = Some (o3, 0)
         \<and> convolve_avx_unrolled_vector
             [1, 2, 3, 4, 5, 6, 7, 8, 9, 10, 11, 12, 13, 14, 15, 16,
              17, 18, 19, 20, 21, 22, 23, 24, 25, 26, 27, 28, 29, 30, 31, 32 :: int]
             \<lparr>cells = replicate 17 0, stores = []\<rparr> 32
             [1, 2, 3, 4, 5, 6, 7, 8, 9, 10, 11, 12, 13, 14, 15, 16 :: int] 16 = Some (o7, 0)
         \<and> cells o1 ! 16 = 2992 \<and> cells o3 ! 16 = 2992 \<and> cells o7 ! 16 = 2992)"
proof -
  have l: "length [1, 2, 3, 4, 5, 6, 7, 8, 9, 10, 11, 12, 13, 14, 15, 16 :: int] = 16"
          "length [1, 2, 3, 4, 5, 6, 7, 8, 9, 10, 11, 12, 13, 14, 15, 16,
                  17, 18, 19, 20, 21, 22, 23, 24, 25, 26, 27, 28, 29, 30, 31, 32 :: int] = 32"
    by simp_all
  have u: "[0..<16] = [0, 1, 2, 3, 4, 5, 6, 7, 8, 9, 10, 11, 12, 13, 14, 15 :: nat]"
    by code_simp
  show ?thesis
    using vector_last_sample_exact
            [of "[1, 2, 3, 4, 5, 6, 7, 8, 9, 10, 11, 12, 13, 14, 15, 16 :: int]"
                "[1, 2, 3, 4, 5, 6, 7, 8, 9, 10, 11, 12, 13, 14, 15, 16,
                 17, 18, 19, 20, 21, 22, 23, 24, 25, 26, 27, 28, 29, 30, 31, 32 :: int]"
                "\<lparr>cells = replicate 17 0, stores = []\<rparr>"]
    unfolding l by (auto simp: u)
qed

text \<open>
  The claim as stated fails where the remainder after the vector steps has more than one
  sample: the scalar code covers the single index \<open>N - K\<close>, and the vector loop makes one
  more step across the end of the buffers. For \<open>N = 9\<close>, \<open>K = 4\<close> (six output samples:
  one vector step and a remainder of two) the call of \<open>convolve_sse_simple\<close> is
  undefined, and so is the call of \<open>convolve_avx_unrolled_vector\<close> for \<open>N = 18\<close>,
  \<open>K = 16\<close> (a remainder of three); the reference routine returns in both cases.
\<close>

theorem vector_tail_overrun_9_4:
  "convolve_sse_simple [1, 2, 3, 4, 5, 6, 7, 8, 9 :: int] \<lparr>cells = [0, 0, 0, 0, 0, 0], stores = []\<rparr> 9
     [1, 2, 3, 4] 4 = None
   \<and> map_option (cells \<circ> fst)
        (convolve_naive [1, 2, 3, 4, 5, 6, 7, 8, 9 :: int] \<lparr>cells = [0, 0, 0, 0, 0, 0], stores = []\<rparr> 9
           [1, 2, 3, 4] 4)
       = Some [20, 30, 40, 50, 60, 70]
   \<and> convolve_avx_unrolled_vector (replicate 18 (1 :: int)) \<lparr>cells = [0, 0, 0], stores = []\<rparr> 18
         (replicate 16 1) 16 = None
   \<and> map_option (cells \<circ> fst)
        (convolve_naive (replicate 18 (1 :: int)) \<lparr>cells = [0, 0, 0], stores = []\<rparr> 18
           (replicate 16 1) 16)
       = Some [16, 16, 16]"
  by code_simp

section \<open>The scenario of the specification\<close>

text \<open>
  Claim C5, as the code has it. For the signal \<open>[1,2,3,4,5]\<close> and the kernel
  \<open>[1,0,-1]\<close> the two scalar routines return status 0 and the samples \<open>[2,2,2]\<close>,
  whatever the output buffer held before; the arithmetic is that of any ring, and all
  values involved are small integers, which \<open>float\<close> represents exactly. The vector
  routines do not take this input: their kernel length is a multiple of 4, or the
  constant 16.
\<close>

theorem fixed_scenario_scalar:
  fixes a b c :: "'a::ring_1"
  shows "map_option (\<lambda>(out', status). (cells out', status))
           (convolve_naive [1, 2, 3, 4, 5] \<lparr>cells = [a, b, c], stores = []\<rparr> 5 [1, 0, - 1] 3)
         = Some ([2, 2, 2], 0)
       \<and> map_option (\<lambda>(out', status). (cells out', status))
           (convolve_reversed_naive [1, 2, 3, 4, 5] \<lparr>cells = [a, b, c], stores = []\<rparr> 5 [1, 0, - 1] 3)
         = Some ([2, 2, 2], 0)"
  by (simp add: convolve_naive_def convolve_reversed_naive_def for_le.simps for_lt.simps
        mac_def mac_value_def load_def store_def)

text \<open>
  The claim as stated, for every routine, fails: \<open>convolve_avx_unrolled_vector\<close> reads
  \<open>kernel[15]\<close> of a kernel of three coefficients when it fills \<open>kernel_reverse\<close>, and
  \<open>convolve_sse_simple\<close> leaves both buffers in its vector loop.
\<close>

theorem fixed_scenario_counterexample:
  "convolve_avx_unrolled_vector [1, 2, 3, 4, 5 :: int] \<lparr>cells = [0, 0, 0], stores = []\<rparr> 5
     [1, 0, - 1] 3 = None
   \<and> broadcast_kernel [1, 0, - 1 :: int] = None
   \<and> convolve_sse_simple [1, 2, 3, 4, 5 :: int] \<lparr>cells = [0, 0, 0], stores = []\<rparr> 5
     [1, 0, - 1] 3 = None"
  by code_simp

section \<open>Linearity in the kernel\<close>

lemma conv_part_scaled:
  fixes in' kernel' :: "'a::comm_semiring_0 list"
  assumes "m \<le> length kernel'"
  shows "conv_part in' (map (\<lambda>k. c * k) kernel') m i = c * conv_part in' kernel' m i"
  using assms
proof (induction m)
  case 0
  show ?case by (simp add: conv_part_def)
next
  case (Suc m)
  then have m: "m \<le> length kernel'" "length kernel' - 1 - m < length kernel'" by simp_all
  have "conv_part in' (map (\<lambda>k. c * k) kernel') (Suc m) i =
        c * conv_part in' kernel' m i + in' ! (i + m) * (c * kernel' ! (length kernel' - 1 - m))"
    unfolding conv_part_Suc Suc.IH[OF m(1)] using m(2) by simp
  also have "\<dots> = c * conv_part in' kernel' (Suc m) i"
    unfolding conv_part_Suc by (simp add: distrib_left mult.left_commute)
  finally show ?case .
qed

lemma conv_part_sum:
  fixes in' kernel1 kernel2 :: "'a::comm_semiring_0 list"
  assumes "m \<le> length kernel1" "length kernel2 = length kernel1"
  shows "conv_part in' (map2 (+) kernel1 kernel2) m i =
         conv_part in' kernel1 m i + conv_part in' kernel2 m i"
  using assms(1)
proof (induction m)
  case 0
  show ?case by (simp add: conv_part_def)
next
  case (Suc m)
  then have m: "m \<le> length kernel1" "length kernel1 - 1 - m < length kernel1" by simp_all
  have n: "map2 (+) kernel1 kernel2 ! (length kernel1 - 1 - m) =
           kernel1 ! (length kernel1 - 1 - m) + kernel2 ! (length kernel1 - 1 - m)"
    using m(2) assms(2) by simp
  have l: "length (map2 (+) kernel1 kernel2) = length kernel1" using assms(2) by simp
  have "conv_part in' (map2 (+) kernel1 kernel2) (Suc m) i =
        conv_part in' kernel1 m i + conv_part in' kernel2 m i
        + in' ! (i + m) * (kernel1 ! (length kernel1 - 1 - m) + kernel2 ! (length kernel1 - 1 - m))"
    unfolding conv_part_Suc Suc.IH[OF m(1)] l n ..
  also have "\<dots> = conv_part in' kernel1 (Suc m) i + conv_part in' kernel2 (Suc m) i"
    unfolding conv_part_Suc assms(2) by (simp add: distrib_left add.assoc add.left_commute)
  finally show ?case .
qed

text \<open>
  Claim C8, as the code has it. In exact arithmetic (sample values in a commutative
  semiring: integers, rationals, reals) the reference routine is linear in the kernel,
  exactly: the output for the kernel scaled by \<open>c\<close> is the output scaled by \<open>c\<close>, and the
  output for the sum of two kernels of equal length is the sum of the two outputs.
\<close>

theorem convolve_naive_linear:
  fixes in' kernel1 kernel2 :: "'a::comm_semiring_0 list"
  assumes "1 \<le> length kernel1" and "length kernel2 = length kernel1"
      and "length kernel1 \<le> length in'"
      and "length (cells out) = length in' - length kernel1 + 1"
  shows "\<exists>o1 o2 oc os.
           convolve_naive in' out (int (length in')) kernel1 (int (length kernel1)) = Some (o1, 0)
         \<and> convolve_naive in' out (int (length in')) kernel2 (int (length kernel1)) = Some (o2, 0)
         \<and> convolve_naive in' out (int (length in')) (map (\<lambda>k. c * k) kernel1) (int (length kernel1))
              = Some (oc, 0)
         \<and> convolve_naive in' out (int (length in')) (map2 (+) kernel1 kernel2) (int (length kernel1))
              = Some (os, 0)
         \<and> cells oc = map (\<lambda>y. c * y) (cells o1)
         \<and> cells os = map2 (+) (cells o1) (cells o2)"
proof -
  let ?L = "length in' - length kernel1 + 1"
  have a: "length kernel2 \<le> length in'" "length (cells out) = length in' - length kernel2 + 1"
    using assms by simp_all
  have b: "length (map (\<lambda>k. c * k) kernel1) \<le> length in'"
    "length (cells out) = length in' - length (map (\<lambda>k. c * k) kernel1) + 1"
    using assms by simp_all
  have d: "length (map2 (+) kernel1 kernel2) \<le> length in'"
    "length (cells out) = length in' - length (map2 (+) kernel1 kernel2) + 1"
    using assms by simp_all
  have sc: "conv_at in' (map (\<lambda>k. c * k) kernel1) = (\<lambda>i. c * conv_at in' kernel1 i)"
    by (simp add: fun_eq_iff conv_at_def conv_part_scaled)
  have su: "conv_at in' (map2 (+) kernel1 kernel2) = (\<lambda>i. conv_at in' kernel1 i + conv_at in' kernel2 i)"
    using conv_part_sum[OF order_refl assms(2)] assms(2) by (simp add: fun_eq_iff conv_at_def)
  have r1: "convolve_naive in' out (int (length in')) kernel1 (int (length kernel1)) =
      Some (out\<lparr>cells := map (conv_at in' kernel1) [0..<?L],
                 stores := stores out @ concat (map (\<lambda>j. replicate (Suc (length kernel1)) (int j)) [0..<?L])\<rparr>, 0)"
    by (rule convolve_naive_result[OF assms(3,4)])
  have r2: "convolve_naive in' out (int (length in')) kernel2 (int (length kernel1)) =
      Some (out\<lparr>cells := map (conv_at in' kernel2) [0..<?L],
                 stores := stores out @ concat (map (\<lambda>j. replicate (Suc (length kernel1)) (int j)) [0..<?L])\<rparr>, 0)"
    using convolve_naive_result[OF a] assms(2) by simp
  have rc: "convolve_naive in' out (int (length in')) (map (\<lambda>k. c * k) kernel1) (int (length kernel1)) =
      Some (out\<lparr>cells := map (\<lambda>i. c * conv_at in' kernel1 i) [0..<?L],
                 stores := stores out @ concat (map (\<lambda>j. replicate (Suc (length kernel1)) (int j)) [0..<?L])\<rparr>, 0)"
    using convolve_naive_result[OF b] by (simp add: sc)
  have rs: "convolve_naive in' out (int (length in')) (map2 (+) kernel1 kernel2) (int (length kernel1)) =
      Some (out\<lparr>cells := map (\<lambda>i. conv_at in' kernel1 i + conv_at in' kernel2 i) [0..<?L],
                 stores := stores out @ concat (map (\<lambda>j. replicate (Suc (length kernel1)) (int j)) [0..<?L])\<rparr>, 0)"
    using convolve_naive_result[OF d] assms(2) by (simp add: su)
  have m2: "map2 (+) (map f xs) (map g xs) = map (\<lambda>i. f i + g i) xs"
    for f g :: "nat \<Rightarrow> 'a" and xs
    by (induction xs) simp_all
  show ?thesis
    unfolding r1 r2 rc rs by (simp add: m2 del: upt_Suc)
qed

theorem convolve_naive_linear_witness:
  "1 \<le> length [1, 0, - 1 :: int] \<and> length [2, 1, 0 :: int] = length [1, 0, - 1 :: int]
   \<and> length [1, 0, - 1 :: int] \<le> length [1, 2, 3, 4, 5 :: int]
   \<and> (\<exists>o1 o2 oc os.
           convolve_naive [1, 2, 3, 4, 5 :: int] \<lparr>cells = [0, 0, 0], stores = []\<rparr> 5 [1, 0, - 1] 3 = Some (o1, 0)
         \<and> convolve_naive [1, 2, 3, 4, 5 :: int] \<lparr>cells = [0, 0, 0], stores = []\<rparr> 5 [2, 1, 0] 3 = Some (o2, 0)
         \<and> convolve_naive [1, 2, 3, 4, 5 :: int] \<lparr>cells = [0, 0, 0], stores = []\<rparr> 5 [7, 0, - 7] 3 = Some (oc, 0)
         \<and> convolve_naive [1, 2, 3, 4, 5 :: int] \<lparr>cells = [0, 0, 0], stores = []\<rparr> 5 [3, 1, - 1] 3 = Some (os, 0)
         \<and> cells oc = map (\<lambda>y. 7 * y) (cells o1)
         \<and> cells os = map2 (+) (cells o1) (cells o2))"
  using convolve_naive_linear [of "[1, 0, - 1 :: int]" "[2, 1, 0]" "[1, 2, 3, 4, 5]"
          "\<lparr>cells = [0, 0, 0], stores = []\<rparr>" 7]
  by simp

text \<open>
  In \<open>float\<close> arithmetic the claim fails, since every operation rounds. Some values of
  the model first: \<open>2^24 + 1\<close> rounds to \<open>2^24\<close>, \<open>1 + 2^-24\<close> to \<open>1\<close>, and \<open>1 + 2^-23\<close> is
  the float after \<open>1\<close>.
\<close>

lemma f32_known_values:
  "F32 1 24 + F32 1 0 = F32 1 24"
  "F32 1 0 + F32 1 (- 24) = F32 1 0"
  "F32 1 0 + F32 1 (- 23) = F32 8388609 (- 23)"
  "F32 3 0 * F32 1 (- 24) = F32 3 (- 24)"
  "F32 3 0 + F32 3 (- 24) = F32 12582913 (- 22)"
  "(0 :: f32) + F32 3 0 = F32 3 0"
  by code_simp+

text \<open>
  For the signal \<open>[1, 1]\<close>, the kernel \<open>[2^-24, 1]\<close> and \<open>c = 3\<close>: the scaled kernel
  \<open>[3 * 2^-24, 3]\<close> gives \<open>3 + 3 * 2^-24\<close>, rounded to \<open>3 + 2^-22\<close>, while the kernel itself
  gives \<open>1 + 2^-24\<close>, rounded to \<open>1\<close>, and scaled by \<open>3\<close> afterwards this is \<open>3\<close>.
\<close>

theorem linearity_float_counterexample:
  "map_option (cells \<circ> fst)
     (convolve_naive [F32 1 0, F32 1 0] \<lparr>cells = [0], stores = []\<rparr> 2
        (map (\<lambda>k. F32 3 0 * k) [F32 1 (- 24), F32 1 0]) 2)
     = Some [F32 12582913 (- 22)]
   \<and> map_option (map (\<lambda>y. F32 3 0 * y) \<circ> cells \<circ> fst)
     (convolve_naive [F32 1 0, F32 1 0] \<lparr>cells = [0], stores = []\<rparr> 2 [F32 1 (- 24), F32 1 0] 2)
     = Some [F32 3 0]
   \<and> F32 12582913 (- 22) \<noteq> F32 3 0"
  by code_simp

end
